theory Spec2Isabelle
  imports Complex_Main "HOL-Library.Multiset"
begin

section \<open>JavaScript numbers\<close>

text \<open>
  A TypeScript \<^verbatim>\<open>number\<close> is an IEEE-754 binary64 value. Finite values are modelled
  by the rational they denote (a negative zero is identified with zero), the two
  infinities and NaN are constructors of their own. Values read from the analytics
  payload (scores, ranks) are finite and have type \<open>rat\<close>; counts (mention counts,
  prompt counts, queries) are integers and have type \<open>int\<close>, on which addition is exact
  as long as the sums stay below \<open>2^53\<close>. A division or a multiplication returns the
  exact result rounded to the nearest binary64 value, ties to even (\<open>dbl\<close>). A comparator
  \<^verbatim>\<open>(a, b) => b.x - a.x\<close> is used for its sign only, which the rounding of the difference
  does not change, so the difference is taken exactly.
\<close>

datatype number = Fin rat | PosInf | NegInf | NaN

definition pow2 :: "int \<Rightarrow> rat" where
  "pow2 e = (if 0 \<le> e then 2 ^ nat e else 1 / 2 ^ nat (- e))"

text \<open>Number of binary digits of a natural number.\<close>

fun bits :: "nat \<Rightarrow> nat" where
  "bits n = (if n = 0 then 0 else Suc (bits (n div 2)))"

declare bits.simps [simp del]

text \<open>For \<open>0 < x\<close>, the exponent \<open>e\<close> with \<open>2^e \<le> x < 2^(e+1)\<close>.\<close>

definition ilog2 :: "rat \<Rightarrow> int" where
  "ilog2 x = (if 1 \<le> x then int (bits (nat \<lfloor>x\<rfloor>)) - 1
              else - int (bits (nat (\<lceil>1 / x\<rceil> - 1))))"

text \<open>Rounding to the nearest integer, a tie going to the even neighbour.\<close>

definition rne :: "rat \<Rightarrow> int" where
  "rne x = (let f = \<lfloor>x\<rfloor>; r = x - of_int f in
             if r < 1 / 2 then f
             else if 1 / 2 < r then f + 1
             else if even f then f else f + 1)"

text \<open>
  The spacing of the binary64 values around a positive \<open>x\<close>: 52 binary places below the
  exponent of \<open>x\<close>, and \<open>2^-1074\<close> for every \<open>x\<close> below \<open>2^-1022\<close> (subnormal values).
\<close>

definition quantum :: "rat \<Rightarrow> rat" where
  "quantum x = pow2 (max (ilog2 x) (- 1022) - 52)"

text \<open>For \<open>0 < x\<close>: the multiple of the spacing nearest to \<open>x\<close>, a tie going to the even one.\<close>

definition round53 :: "rat \<Rightarrow> rat" where
  "round53 x = of_int (rne (x / quantum x)) * quantum x"

text \<open>
  The binary64 value nearest to a rational: an infinity when the rounded magnitude
  reaches \<open>2^1024\<close>.
\<close>

definition dbl :: "rat \<Rightarrow> number" where
  "dbl x = (if x = 0 then Fin 0
            else if 0 < x then (let y = round53 x in if pow2 1024 \<le> y then PosInf else Fin y)
            else (let y = round53 (- x) in if pow2 1024 \<le> y then NegInf else Fin (- y)))"

text \<open>\<^verbatim>\<open>a / b\<close> on finite operands.\<close>

definition js_div :: "rat \<Rightarrow> rat \<Rightarrow> number" where
  "js_div a b = (if b = 0 then (if a = 0 then NaN else if 0 < a then PosInf else NegInf)
                 else dbl (a / b))"

text \<open>\<^verbatim>\<open>x * b\<close> with a finite right operand.\<close>

fun js_mul :: "number \<Rightarrow> rat \<Rightarrow> number" where
  "js_mul (Fin a) b = dbl (a * b)"
| "js_mul PosInf b = (if b = 0 then NaN else if 0 < b then PosInf else NegInf)"
| "js_mul NegInf b = (if b = 0 then NaN else if 0 < b then NegInf else PosInf)"
| "js_mul NaN b = NaN"

text \<open>\<^verbatim>\<open>Math.round\<close>: the nearest integer, a tie going up.\<close>

fun Math_round :: "number \<Rightarrow> number" where
  "Math_round (Fin x) = Fin (of_int \<lfloor>x + 1 / 2\<rfloor>)"
| "Math_round PosInf = PosInf"
| "Math_round NegInf = NegInf"
| "Math_round NaN = NaN"

text \<open>\<^verbatim>\<open>Math.min(x, b)\<close> with a finite second argument.\<close>

fun Math_min :: "number \<Rightarrow> rat \<Rightarrow> number" where
  "Math_min (Fin a) b = Fin (min a b)"
| "Math_min PosInf b = Fin b"
| "Math_min NegInf b = NegInf"
| "Math_min NaN b = NaN"

text \<open>\<^verbatim>\<open>x >= b\<close> with a finite right operand; false on NaN.\<close>

fun js_ge :: "number \<Rightarrow> rat \<Rightarrow> bool" where
  "js_ge (Fin a) b = (b \<le> a)"
| "js_ge PosInf b = True"
| "js_ge NegInf b = False"
| "js_ge NaN b = False"

text \<open>The expression \<^verbatim>\<open>Math.round((a / b) * 100)\<close>, which the metrics share.\<close>

definition js_percent :: "rat \<Rightarrow> rat \<Rightarrow> number" where
  "js_percent a b = Math_round (js_mul (js_div a b) 100)"

text \<open>
  The exact percentage, for comparison: \<open>half_up\<close> rounds a rational to the nearest
  integer, a tie going up. \<open>rounded_percent p c n\<close> says that \<open>p\<close> is the percentage of
  \<open>c\<close> in \<open>n\<close> rounded so, except that where \<open>100 c / n\<close> lies exactly halfway between two
  integers the lower one is accepted too.
\<close>

definition half_up :: "rat \<Rightarrow> int" where
  "half_up x = \<lfloor>x + 1 / 2\<rfloor>"

definition rounded_percent :: "number \<Rightarrow> int \<Rightarrow> int \<Rightarrow> bool" where
  "rounded_percent p c n =
     (case p of
        Fin v \<Rightarrow> v = of_int (half_up (100 * of_int c / of_int n)) \<or>
                 (2 * n dvd 200 * c + n \<and> v = of_int (half_up (100 * of_int c / of_int n) - 1))
      | _ \<Rightarrow> False)"

definition in_percent_range :: "number \<Rightarrow> bool" where
  "in_percent_range p = (case p of Fin v \<Rightarrow> 0 \<le> v \<and> v \<le> 100 | _ \<Rightarrow> False)"

section \<open>Arrays\<close>

text \<open>
  \<^verbatim>\<open>Array.prototype.sort(cmp)\<close> is stable (ECMAScript 2019): an element moves behind
  another one only when the comparator is positive on the pair. The model is the stable
  insertion sort; the comparator returns a number, of which the sort reads the sign.
\<close>

fun js_insert :: "('a \<Rightarrow> 'a \<Rightarrow> rat) \<Rightarrow> 'a \<Rightarrow> 'a list \<Rightarrow> 'a list" where
  "js_insert cmp x [] = [x]"
| "js_insert cmp x (y # ys) = (if cmp x y \<le> 0 then x # y # ys else y # js_insert cmp x ys)"

definition Array_sort :: "('a \<Rightarrow> 'a \<Rightarrow> rat) \<Rightarrow> 'a list \<Rightarrow> 'a list" where
  "Array_sort cmp xs = foldr (js_insert cmp) xs []"

text \<open>
  \<^verbatim>\<open>[...xs].sort(cmp)\<close> with the arrays in a store: an array is a cell of the store,
  a reference is the index of its cell. The spread allocates a new cell with the same
  elements; \<^verbatim>\<open>sort\<close> reorders the cell it is called on and returns its reference.
\<close>

type_synonym 'a store = "'a list list"

definition spread :: "'a store \<Rightarrow> nat \<Rightarrow> 'a store \<times> nat" where
  "spread h a = (h @ [h ! a], length h)"

definition sort_in_place :: "('a \<Rightarrow> 'a \<Rightarrow> rat) \<Rightarrow> 'a store \<Rightarrow> nat \<Rightarrow> 'a store \<times> nat" where
  "sort_in_place cmp h a = (h[a := Array_sort cmp (h ! a)], a)"

definition sorted_copy :: "('a \<Rightarrow> 'a \<Rightarrow> rat) \<Rightarrow> 'a store \<Rightarrow> nat \<Rightarrow> 'a store \<times> nat" where
  "sorted_copy cmp h a = (case spread h a of (h1, c) \<Rightarrow> sort_in_place cmp h1 c)"

section \<open>formulas.ts\<close>

definition calculatePercentile :: "rat \<Rightarrow> rat list \<Rightarrow> number" where
  "calculatePercentile val allValues =
     (let sorted = Array_sort (\<lambda>a b. a - b) allValues;
          lowerCount = length (filter (\<lambda>v. v < val) sorted);
          percentile = js_mul (js_div (of_nat lowerCount) (of_nat (length sorted))) 100
      in Math_round percentile)"

definition getTierFromPercentile :: "number \<Rightarrow> string" where
  "getTierFromPercentile percentile =
     (if js_ge percentile 70 then ''High''
      else if js_ge percentile 40 then ''Medium''
      else ''Low'')"

text \<open>
  \<^verbatim>\<open>mentionBreakdown\<close> is \<open>None\<close> for null, otherwise the entries of the object
  (keyword id, count).
\<close>

definition calculateBrandMentionScore :: "(string \<times> int) list option \<Rightarrow> int \<Rightarrow> number" where
  "calculateBrandMentionScore mentionBreakdown totalPrompts =
     (case mentionBreakdown of
        None \<Rightarrow> Fin 0
      | Some entries \<Rightarrow>
          if totalPrompts \<le> 0 then Fin 0
          else (let totalMentions = fold (\<lambda>count sum. sum + count) (map snd entries) 0
                in Math_min (Math_round (js_mul (js_div (of_int totalMentions) (of_int totalPrompts)) 100)) 100))"

section \<open>analyticsData.ts: the data read by the metrics\<close>

text \<open>
  The file holds two declarations of the module. Where they differ, the first
  declaration (the one with the t1/t2/t3 counters) has the suffix \<open>_v1\<close> and the second
  (the rank-derived one) the suffix \<open>_v2\<close>. The functions read the snapshot through
  getters; the models of the bodies take what the getters return as arguments, and the
  models with the suffix \<open>_snapshot\<close> call the getters as the source does.
\<close>

text \<open>An element of \<^verbatim>\<open>getBrandInfoWithLogos()\<close>: every field already defaulted.\<close>

record brand_info =
  brand :: string
  geo_score :: rat
  mention_score :: rat
  mention_count :: rat
  logo :: string
  geo_tier :: string
  mention_tier :: string
  summary :: string
  outlook :: string
  mention_breakdown :: "(string \<times> int) list option"

text \<open>An element of the raw \<^verbatim>\<open>analytics.brands\<close>: a field may be missing.\<close>

record raw_brand =
  rb_brand :: string
  rb_geo_score :: "rat option"
  rb_geo_tier :: "string option"
  rb_mention_score :: "rat option"
  rb_mention_count :: "rat option"
  rb_logo :: "string option"
  rb_mention_tier :: "string option"
  rb_summary :: "string option"
  rb_outlook :: "string option"
  rb_mention_breakdown :: "(string \<times> int) list option"

record llm_tiers =
  t1 :: "int option"
  t2 :: "int option"
  t3 :: "int option"

record llm_wise_v1 =
  gemini :: "llm_tiers option"
  openai :: "llm_tiers option"

record analytics_v1 =
  an_brand_name :: "string option"
  an_brands :: "raw_brand list option"
  an_llm_wise_data :: "llm_wise_v1 option"

text \<open>A value of \<^verbatim>\<open>llm_wise_data\<close> as the second declaration reads it.\<close>

record llm_entry =
  queries_with_brand :: "int option"
  average_brand_rank :: "rat option"
  average_rank :: "rat option"

text \<open>\<^verbatim>\<open>x || 0\<close> on an optional number, \<^verbatim>\<open>s || d\<close> on an optional string.\<close>

definition or0 :: "'a::zero option \<Rightarrow> 'a" where
  "or0 x = (case x of None \<Rightarrow> 0 | Some v \<Rightarrow> v)"

definition or_str :: "string option \<Rightarrow> string \<Rightarrow> string" where
  "or_str s d = (case s of None \<Rightarrow> d | Some v \<Rightarrow> if v = [] then d else v)"

text \<open>\<^verbatim>\<open>Array.prototype.findIndex\<close>: the first index that satisfies the test, or -1.\<close>

fun findIndex_from :: "('a \<Rightarrow> bool) \<Rightarrow> 'a list \<Rightarrow> int \<Rightarrow> int" where
  "findIndex_from P [] k = - 1"
| "findIndex_from P (x # xs) k = (if P x then k else findIndex_from P xs (k + 1))"

definition findIndex :: "('a \<Rightarrow> bool) \<Rightarrow> 'a list \<Rightarrow> int" where
  "findIndex P xs = findIndex_from P xs 0"

section \<open>analyticsData.ts: formatLogoUrl and getBrandInfoWithLogos\<close>

text \<open>
  The regular expressions \<^verbatim>\<open>/^https?:\/\//i\<close> and \<^verbatim>\<open>/^www\./i\<close> match at the start of
  the string only, whatever the case of the letters. A pattern is the list of the
  characters allowed at each place.
\<close>

fun matches_prefix :: "string list \<Rightarrow> string \<Rightarrow> bool" where
  "matches_prefix [] s = True"
| "matches_prefix (cs # ps) [] = False"
| "matches_prefix (cs # ps) (c # s) = (c \<in> set cs \<and> matches_prefix ps s)"

definition http_pattern :: "string list" where
  "http_pattern = [''hH'', ''tT'', ''tT'', ''pP'', '':'', ''/'', ''/'']"

definition https_pattern :: "string list" where
  "https_pattern = [''hH'', ''tT'', ''tT'', ''pP'', ''sS'', '':'', ''/'', ''/'']"

definition www_pattern :: "string list" where
  "www_pattern = [''wW'', ''wW'', ''wW'', ''.'']"

text \<open>\<^verbatim>\<open>/^https?:\/\//i.test(s)\<close>\<close>

definition test_protocol :: "string \<Rightarrow> bool" where
  "test_protocol s = (matches_prefix https_pattern s \<or> matches_prefix http_pattern s)"

text \<open>\<^verbatim>\<open>s.replace(/^https?:\/\//i, '')\<close> and \<^verbatim>\<open>s.replace(/^www\./i, '')\<close>\<close>

definition replace_protocol :: "string \<Rightarrow> string" where
  "replace_protocol s =
     (if matches_prefix https_pattern s then drop 8 s
      else if matches_prefix http_pattern s then drop 7 s
      else s)"

definition replace_www :: "string \<Rightarrow> string" where
  "replace_www s = (if matches_prefix www_pattern s then drop 4 s else s)"

text \<open>
  \<^verbatim>\<open>s.replace(pat, repl)\<close> with a string pattern replaces the first occurrence of
  \<^verbatim>\<open>pat\<close>. In the replacement, \<^verbatim>\<open>$$\<close> stands for a dollar sign, \<^verbatim>\<open>$&\<close> for the matched
  text, and \<^verbatim>\<open>$\<close> followed by a backquote or by a quote for the text before or after the
  match.
\<close>

fun split_at_first :: "string \<Rightarrow> string \<Rightarrow> (string \<times> string) option" where
  "split_at_first pat [] = (if pat = [] then Some ([], []) else None)"
| "split_at_first pat (c # s) =
     (if take (length pat) (c # s) = pat then Some ([], drop (length pat) (c # s))
      else map_option (\<lambda>(b, a). (c # b, a)) (split_at_first pat s))"

fun expand_replacement :: "string \<Rightarrow> string \<Rightarrow> string \<Rightarrow> string \<Rightarrow> string" where
  "expand_replacement m b a [] = []"
| "expand_replacement m b a [c] = [c]"
| "expand_replacement m b a (c # d # r) =
     (if c = CHR ''$'' \<and> d = CHR ''$'' then CHR ''$'' # expand_replacement m b a r
      else if c = CHR ''$'' \<and> d = CHR ''&'' then m @ expand_replacement m b a r
      else if c = CHR ''$'' \<and> d = CHR 0x60 then b @ expand_replacement m b a r
      else if c = CHR ''$'' \<and> d = CHR 0x27 then a @ expand_replacement m b a r
      else c # expand_replacement m b a (d # r))"

definition String_replace :: "string \<Rightarrow> string \<Rightarrow> string \<Rightarrow> string" where
  "String_replace s pat repl =
     (case split_at_first pat s of
        None \<Rightarrow> s
      | Some (b, a) \<Rightarrow> b @ expand_replacement pat b a repl @ a)"

text \<open>
  \<^verbatim>\<open>normalizeDomain\<close>: no protocol, no www, no path. The first declaration returns the
  empty string for an empty input before it does anything else.
\<close>

definition normalizeDomain_v1 :: "string \<Rightarrow> string" where
  "normalizeDomain_v1 input =
     (if input = [] then []
      else takeWhile (\<lambda>c. c \<noteq> CHR ''/'') (replace_www (replace_protocol input)))"

definition normalizeDomain_v2 :: "string \<Rightarrow> string" where
  "normalizeDomain_v2 input = takeWhile (\<lambda>c. c \<noteq> CHR ''/'') (replace_www (replace_protocol input))"

text \<open>
  \<^verbatim>\<open>FAVICON_URL_TEMPLATE\<close> is read from the environment variable
  \<^verbatim>\<open>VITE_FAVICON_URL_TEMPLATE\<close>, which is \<open>None\<close> when it is not set. The first declaration
  falls back to a default; the second one keeps \<^verbatim>\<open>undefined\<close>, and calling \<^verbatim>\<open>replace\<close> on
  it throws a \<^verbatim>\<open>TypeError\<close>.
\<close>

datatype js_error = TypeError

definition FAVICON_URL_TEMPLATE_v1 :: "string option \<Rightarrow> string" where
  "FAVICON_URL_TEMPLATE_v1 env = or_str env ''https://www.google.com/s2/favicons?domain={domain}&sz=128''"

definition formatLogoUrl_v1 :: "string option \<Rightarrow> string \<Rightarrow> string" where
  "formatLogoUrl_v1 env logo' =
     (if logo' = [] then []
      else if test_protocol logo' then logo'
      else (let domain = normalizeDomain_v1 logo' in
            if domain = [] then []
            else (let httpsWwwDomain = ''https://www.'' @ domain
                  in String_replace (FAVICON_URL_TEMPLATE_v1 env) ''{domain}'' httpsWwwDomain)))"

definition formatLogoUrl_v2 :: "string option \<Rightarrow> string \<Rightarrow> js_error + string" where
  "formatLogoUrl_v2 env logo' =
     (if logo' = [] then Inr []
      else if test_protocol logo' then Inr logo'
      else (let domain = normalizeDomain_v2 logo';
                httpsWwwDomain = ''https://www.'' @ domain
            in case env of
                 None \<Rightarrow> Inl TypeError
               | Some template \<Rightarrow> Inr (String_replace template ''{domain}'' httpsWwwDomain)))"











section \<open>analyticsData.ts: getAIVisibilityMetrics\<close>

record position_breakdown =
  topPosition :: number
  midPosition :: number
  lowPosition :: number

record visibility_metrics =
  vm_score :: rat
  vm_tier :: string
  brandPosition :: int
  vm_totalBrands :: nat
  positionBreakdown :: position_breakdown

text \<open>\<^verbatim>\<open>tot > 0 ? Math.round((cnt / tot) * 100) : 0\<close>\<close>

definition percent_of :: "int \<Rightarrow> int \<Rightarrow> number" where
  "percent_of cnt tot =
     (if 0 < tot then Math_round (js_mul (js_div (of_int cnt) (of_int tot)) 100) else Fin 0)"

definition tier_count :: "llm_tiers option \<Rightarrow> (llm_tiers \<Rightarrow> int option) \<Rightarrow> int" where
  "tier_count m sel = (case m of None \<Rightarrow> 0 | Some r \<Rightarrow> or0 (sel r))"

definition getAIVisibilityMetrics_v1 :: "analytics_v1 option \<Rightarrow> visibility_metrics" where
  "getAIVisibilityMetrics_v1 analytics =
     (case analytics of
        None \<Rightarrow> \<lparr>vm_score = 0, vm_tier = ''Low'', brandPosition = 0, vm_totalBrands = 0,
                 positionBreakdown = \<lparr>topPosition = Fin 0, midPosition = Fin 0, lowPosition = Fin 0\<rparr>\<rparr>
      | Some an \<Rightarrow>
         (let llmData = an_llm_wise_data an;
              brandName = an_brand_name an;
              brands = (case an_brands an of None \<Rightarrow> [] | Some bs \<Rightarrow> bs);
              brandInfo = find (\<lambda>b. Some (rb_brand b) = brandName) brands;
              visibilityScore = (case brandInfo of None \<Rightarrow> 0 | Some b \<Rightarrow> or0 (rb_geo_score b));
              tier = (case brandInfo of None \<Rightarrow> ''Low'' | Some b \<Rightarrow> or_str (rb_geo_tier b) ''Low'');
              gem = (case llmData of None \<Rightarrow> None | Some d \<Rightarrow> gemini d);
              oai = (case llmData of None \<Rightarrow> None | Some d \<Rightarrow> openai d);
              totalT1 = tier_count gem t1 + tier_count oai t1;
              totalT2 = tier_count gem t2 + tier_count oai t2;
              totalT3 = tier_count gem t3 + tier_count oai t3;
              totalMentions = totalT1 + totalT2 + totalT3;
              sortedBrands = Array_sort (\<lambda>a b. or0 (rb_geo_score b) - or0 (rb_geo_score a)) brands;
              position = findIndex (\<lambda>b. Some (rb_brand b) = brandName) sortedBrands + 1
          in \<lparr>vm_score = visibilityScore, vm_tier = tier,
              brandPosition = (if position = 0 then 0 else position),
              vm_totalBrands = length brands,
              positionBreakdown = \<lparr>topPosition = percent_of totalT1 totalMentions,
                                    midPosition = percent_of totalT2 totalMentions,
                                    lowPosition = percent_of totalT3 totalMentions\<rparr>\<rparr>))"

text \<open>The counters of the loop over \<^verbatim>\<open>Object.values(llmData)\<close>.\<close>

record rank_counts =
  totalQueriesWithBrand :: int
  topPositionCount :: int
  midPositionCount :: int
  lowPositionCount :: int

definition avg_rank_of :: "llm_entry \<Rightarrow> rat" where
  "avg_rank_of d = (if or0 (average_brand_rank d) \<noteq> 0 then or0 (average_brand_rank d)
                    else if or0 (average_rank d) \<noteq> 0 then or0 (average_rank d) else 0)"

definition count_llm :: "llm_entry option \<Rightarrow> rank_counts \<Rightarrow> rank_counts" where
  "count_llm data c =
     (case data of
        None \<Rightarrow> c
      | Some d \<Rightarrow>
          if or0 (queries_with_brand d) \<noteq> 0 then
            (let q = or0 (queries_with_brand d);
                 c1 = c\<lparr>totalQueriesWithBrand := totalQueriesWithBrand c + q\<rparr>;
                 avgRank = avg_rank_of d
             in if 0 < avgRank then
                  (if avgRank \<le> 1 then c1\<lparr>topPositionCount := topPositionCount c1 + q\<rparr>
                   else if avgRank \<le> 4 then c1\<lparr>midPositionCount := midPositionCount c1 + q\<rparr>
                   else c1\<lparr>lowPositionCount := lowPositionCount c1 + q\<rparr>)
                else c1)
          else c)"

definition count_all :: "llm_entry option list \<Rightarrow> rank_counts" where
  "count_all llmData =
     fold count_llm llmData
       \<lparr>totalQueriesWithBrand = 0, topPositionCount = 0, midPositionCount = 0, lowPositionCount = 0\<rparr>"

definition positionBreakdown_v2 :: "llm_entry option list \<Rightarrow> position_breakdown" where
  "positionBreakdown_v2 llmData =
     (let c = count_all llmData;
          queriesWithMentions = (if totalQueriesWithBrand c = 0 then 1 else totalQueriesWithBrand c)
      in \<lparr>topPosition = percent_of (topPositionCount c) queriesWithMentions,
          midPosition = percent_of (midPositionCount c) queriesWithMentions,
          lowPosition = percent_of (lowPositionCount c) queriesWithMentions\<rparr>)"

definition getAIVisibilityMetrics_v2 ::
    "string \<Rightarrow> brand_info list \<Rightarrow> llm_entry option list \<Rightarrow> visibility_metrics" where
  "getAIVisibilityMetrics_v2 brandName brandInfoWithLogos llmData =
     (let brandData = find (\<lambda>b. brand b = brandName) brandInfoWithLogos;
          score = (case brandData of None \<Rightarrow> 0 | Some b \<Rightarrow> geo_score b);
          tier = (case brandData of None \<Rightarrow> ''Low'' | Some b \<Rightarrow> or_str (Some (geo_tier b)) ''Low'');
          totalBrands = length brandInfoWithLogos;
          sortedByScore = Array_sort (\<lambda>a b. geo_score b - geo_score a) brandInfoWithLogos;
          brandIndex = findIndex (\<lambda>b. brand b = brandName) sortedByScore
      in \<lparr>vm_score = score, vm_tier = tier,
          brandPosition = (if 0 \<le> brandIndex then brandIndex + 1 else int totalBrands),
          vm_totalBrands = totalBrands,
          positionBreakdown = positionBreakdown_v2 llmData\<rparr>)"

text \<open>
  The queries-with-brand summed over the entries whose average rank lies in a band.
\<close>

fun bucket_sum :: "(rat \<Rightarrow> bool) \<Rightarrow> llm_entry option list \<Rightarrow> int" where
  "bucket_sum band [] = 0"
| "bucket_sum band (None # ds) = bucket_sum band ds"
| "bucket_sum band (Some d # ds) =
     (if band (avg_rank_of d) then or0 (queries_with_brand d) else 0) + bucket_sum band ds"

text \<open>Every entry has a queries-with-brand count that is not negative.\<close>

definition nonneg_queries :: "llm_entry option list \<Rightarrow> bool" where
  "nonneg_queries llm =
     list_all (\<lambda>d. case d of None \<Rightarrow> True | Some e \<Rightarrow> 0 \<le> or0 (queries_with_brand e)) llm"

section \<open>analyticsData.ts: getMentionsPosition\<close>

text \<open>The two declarations differ only in the name of a local variable.\<close>

record mentions_position =
  mp_position :: int
  mp_tier :: string
  mp_totalBrands :: nat
  topBrandMentions :: rat
  brandMentions :: rat
  allBrandMentions :: "string \<rightharpoonup> rat"

definition getMentionsPosition :: "string \<Rightarrow> brand_info list \<Rightarrow> mentions_position" where
  "getMentionsPosition brandName brandInfoWithLogos =
     (let allMentionScores =
            fold (\<lambda>b m. m(brand b \<mapsto> mention_score b)) brandInfoWithLogos Map.empty;
          sortedByMentions =
            Array_sort (\<lambda>a b. mention_score b - mention_score a) brandInfoWithLogos;
          brandIndex = findIndex (\<lambda>b. brand b = brandName) sortedByMentions;
          position = (if 0 \<le> brandIndex then brandIndex + 1 else int (length sortedByMentions));
          brandInfo = find (\<lambda>b. brand b = brandName) brandInfoWithLogos;
          brandMentionScore = (case brandInfo of None \<Rightarrow> 0 | Some b \<Rightarrow> mention_score b);
          topMentionScore = (case sortedByMentions of [] \<Rightarrow> 0 | b # _ \<Rightarrow> mention_score b);
          tier = (case brandInfo of None \<Rightarrow> ''Low'' | Some b \<Rightarrow> or_str (Some (mention_tier b)) ''Low'')
      in \<lparr>mp_position = position, mp_tier = tier,
          mp_totalBrands = length brandInfoWithLogos,
          topBrandMentions = topMentionScore,
          brandMentions = brandMentionScore,
          allBrandMentions = allMentionScores\<rparr>)"




text \<open>
  The same two functions with the arrays in the store: \<^verbatim>\<open>brandInfoWithLogos\<close> is a
  reference, the ranking is the sorted copy that \<^verbatim>\<open>[...brandInfoWithLogos].sort(cmp)\<close>
  allocates, and what is read after the sort is read from the store that the sort left.
\<close>

definition getMentionsPosition_st ::
    "string \<Rightarrow> brand_info store \<Rightarrow> nat \<Rightarrow> brand_info store \<times> mentions_position" where
  "getMentionsPosition_st brandName h brandInfoWithLogos =
     (let allMentionScores =
            fold (\<lambda>b m. m(brand b \<mapsto> mention_score b)) (h ! brandInfoWithLogos) Map.empty
      in case sorted_copy (\<lambda>a b. mention_score b - mention_score a) h brandInfoWithLogos of
           (h1, sortedByMentions) \<Rightarrow>
             (let brandIndex = findIndex (\<lambda>b. brand b = brandName) (h1 ! sortedByMentions);
                  position = (if 0 \<le> brandIndex then brandIndex + 1
                              else int (length (h1 ! sortedByMentions)));
                  brandInfo = find (\<lambda>b. brand b = brandName) (h1 ! brandInfoWithLogos);
                  brandMentionScore = (case brandInfo of None \<Rightarrow> 0 | Some b \<Rightarrow> mention_score b);
                  topMentionScore =
                    (case h1 ! sortedByMentions of [] \<Rightarrow> 0 | b # _ \<Rightarrow> mention_score b);
                  tier = (case brandInfo of None \<Rightarrow> ''Low''
                          | Some b \<Rightarrow> or_str (Some (mention_tier b)) ''Low'')
              in (h1, \<lparr>mp_position = position, mp_tier = tier,
                       mp_totalBrands = length (h1 ! brandInfoWithLogos),
                       topBrandMentions = topMentionScore,
                       brandMentions = brandMentionScore,
                       allBrandMentions = allMentionScores\<rparr>)))"

definition getAIVisibilityMetrics_v2_st ::
    "string \<Rightarrow> brand_info store \<Rightarrow> nat \<Rightarrow> llm_entry option list \<Rightarrow>
     brand_info store \<times> visibility_metrics" where
  "getAIVisibilityMetrics_v2_st brandName h brandInfoWithLogos llmData =
     (let brandData = find (\<lambda>b. brand b = brandName) (h ! brandInfoWithLogos);
          score = (case brandData of None \<Rightarrow> 0 | Some b \<Rightarrow> geo_score b);
          tier = (case brandData of None \<Rightarrow> ''Low'' | Some b \<Rightarrow> or_str (Some (geo_tier b)) ''Low'');
          totalBrands = length (h ! brandInfoWithLogos)
      in case sorted_copy (\<lambda>a b. geo_score b - geo_score a) h brandInfoWithLogos of
           (h1, sortedByScore) \<Rightarrow>
             (let brandIndex = findIndex (\<lambda>b. brand b = brandName) (h1 ! sortedByScore)
              in (h1, \<lparr>vm_score = score, vm_tier = tier,
                       brandPosition = (if 0 \<le> brandIndex then brandIndex + 1 else int totalBrands),
                       vm_totalBrands = totalBrands,
                       positionBreakdown = positionBreakdown_v2 llmData\<rparr>)))"

text \<open>
  The number of entries that rank before entry \<open>i\<close>: those with a larger score, and those
  with the same score that come earlier in the list.
\<close>

definition ranks_before :: "('a \<Rightarrow> rat) \<Rightarrow> 'a list \<Rightarrow> nat \<Rightarrow> nat" where
  "ranks_before sel bs i =
     length (filter (\<lambda>x. sel (bs ! i) < sel x) bs) +
     length (filter (\<lambda>x. sel x = sel (bs ! i)) (take i bs))"

section \<open>analyticsData.ts: getBrandMentionResponseRates\<close>

record rate_row =
  rr_brand :: string
  responseRate :: rat
  rr_logo :: string
  isTestBrand :: bool

text \<open>First declaration: the rate is the mention score as it is; the result is sorted again.\<close>

definition getBrandMentionResponseRates_v1 :: "string \<Rightarrow> brand_info list \<Rightarrow> rate_row list" where
  "getBrandMentionResponseRates_v1 brandName brandInfoWithLogos =
     (let allBrandsWithRates =
            map (\<lambda>b. \<lparr>rr_brand = brand b, responseRate = mention_score b,
                      rr_logo = logo b, isTestBrand = (brand b = brandName)\<rparr>) brandInfoWithLogos;
          sortedBrands = Array_sort (\<lambda>a b. responseRate b - responseRate a) allBrandsWithRates;
          topTwoCompetitors = take 2 (filter (\<lambda>b. \<not> isTestBrand b) sortedBrands);
          testBrand = find isTestBrand sortedBrands;
          combinedBrands = (case testBrand of None \<Rightarrow> topTwoCompetitors
                            | Some t \<Rightarrow> topTwoCompetitors @ [t])
      in Array_sort (\<lambda>a b. responseRate b - responseRate a) combinedBrands)"

text \<open>Second declaration: the rate is capped at 100; the test brand is pushed last.\<close>

definition getBrandMentionResponseRates_v2 :: "string \<Rightarrow> brand_info list \<Rightarrow> rate_row list" where
  "getBrandMentionResponseRates_v2 brandName brandInfoWithLogos =
     (let brandsWithRates =
            Array_sort (\<lambda>a b. responseRate b - responseRate a)
              (map (\<lambda>b. \<lparr>rr_brand = brand b, responseRate = min (mention_score b) 100,
                         rr_logo = logo b, isTestBrand = (brand b = brandName)\<rparr>) brandInfoWithLogos);
          topTwoBrands = take 2 (filter (\<lambda>b. \<not> isTestBrand b) brandsWithRates);
          testBrand = find isTestBrand brandsWithRates
      in (case testBrand of None \<Rightarrow> topTwoBrands | Some t \<Rightarrow> topTwoBrands @ [t]))"

text \<open>The row that the first and the second declaration build for a brand.\<close>

definition rate_row_v1 :: "string \<Rightarrow> brand_info \<Rightarrow> rate_row" where
  "rate_row_v1 brandName b =
     \<lparr>rr_brand = brand b, responseRate = mention_score b, rr_logo = logo b,
      isTestBrand = (brand b = brandName)\<rparr>"

definition rate_row_v2 :: "string \<Rightarrow> brand_info \<Rightarrow> rate_row" where
  "rate_row_v2 brandName b =
     \<lparr>rr_brand = brand b, responseRate = min (mention_score b) 100, rr_logo = logo b,
      isTestBrand = (brand b = brandName)\<rparr>"

text \<open>Sorting rows by the response rate, descending.\<close>

definition by_rate :: "rate_row list \<Rightarrow> rate_row list" where
  "by_rate rows = Array_sort (\<lambda>a b. responseRate b - responseRate a) rows"

section \<open>The top competitor of a keyword and of a source\<close>

record top_competitor =
  tc_brand :: string
  tc_score :: int
  tc_logo :: string

text \<open>\<^verbatim>\<open>b.mention_breakdown?.[keywordId] || 0\<close>\<close>

definition keyword_score :: "brand_info \<Rightarrow> string \<Rightarrow> int" where
  "keyword_score b keywordId =
     (case mention_breakdown b of None \<Rightarrow> 0 | Some entries \<Rightarrow> or0 (map_of entries keywordId))"

definition getTopCompetitorForKeyword :: "brand_info list \<Rightarrow> string \<Rightarrow> top_competitor" where
  "getTopCompetitorForKeyword brandInfo keywordId =
     fold (\<lambda>b top. let score = keyword_score b keywordId in
                    if tc_score top < score
                    then \<lparr>tc_brand = brand b, tc_score = score, tc_logo = logo b\<rparr>
                    else top)
          brandInfo \<lparr>tc_brand = [], tc_score = 0, tc_logo = []\<rparr>"

text \<open>A value of a source's \<^verbatim>\<open>mentions\<close> object; the count may be missing.\<close>

record source_mention =
  sm_count :: "int option"
  sm_score :: rat
  sm_insight :: string

text \<open>The local \<^verbatim>\<open>getBrandLogo(name) || ''\<close>.\<close>

definition getBrandLogo :: "brand_info list \<Rightarrow> string \<Rightarrow> string" where
  "getBrandLogo brandInfo name =
     (case find (\<lambda>b. brand b = name) brandInfo of None \<Rightarrow> [] | Some b \<Rightarrow> logo b)"

text \<open>
  \<^verbatim>\<open>mentions\<close> is given as \<^verbatim>\<open>Object.entries(mentions)\<close>, in the order of the iteration.
  \<^verbatim>\<open>data.count > topScore\<close> is false when the count is missing.
\<close>

definition getTopCompetitorForSource ::
    "brand_info list \<Rightarrow> (string \<times> source_mention) list \<Rightarrow> top_competitor" where
  "getTopCompetitorForSource brandInfo mentions =
     fold (\<lambda>(name, data) top.
             case sm_count data of
               None \<Rightarrow> top
             | Some c \<Rightarrow> if tc_score top < c
                         then \<lparr>tc_brand = name, tc_score = c, tc_logo = getBrandLogo brandInfo name\<rparr>
                         else top)
          mentions \<lparr>tc_brand = [], tc_score = 0, tc_logo = []\<rparr>"

text \<open>The count of an entry of \<^verbatim>\<open>mentions\<close>; a missing count never wins, as a count of 0.\<close>

definition source_count :: "string \<times> source_mention \<Rightarrow> int" where
  "source_count e = or0 (sm_count (snd e))"

definition no_competitor :: top_competitor where
  "no_competitor = \<lparr>tc_brand = [], tc_score = 0, tc_logo = []\<rparr>"

section \<open>Example data\<close>

definition example_brand :: "string \<Rightarrow> rat \<Rightarrow> rat \<Rightarrow> brand_info" where
  "example_brand name geo mention =
     \<lparr>brand = name, geo_score = geo, mention_score = mention, mention_count = 0, logo = [],
      geo_tier = ''Low'', mention_tier = ''Low'', summary = [], outlook = ''Neutral'',
      mention_breakdown = None\<rparr>"


definition example_keyword_brand :: "string \<Rightarrow> int \<Rightarrow> brand_info" where
  "example_keyword_brand name n =
     (example_brand name 0 0)\<lparr>logo := name @ ''.png'', mention_breakdown := Some [(''k1'', n)]\<rparr>"

definition example_mention :: "int option \<Rightarrow> source_mention" where
  "example_mention c = \<lparr>sm_count = c, sm_score = 0, sm_insight = []\<rparr>"

definition example_llm :: "int \<Rightarrow> rat \<Rightarrow> llm_entry option" where
  "example_llm q r = Some \<lparr>queries_with_brand = Some q, average_brand_rank = None, average_rank = Some r\<rparr>"

text \<open>A population of 40 values, 23 of them below 5.\<close>

definition example_population :: "rat list" where
  "example_population = replicate 23 1 @ replicate 17 9"




section \<open>Facts about the array primitives\<close>

lemma length_js_insert: "length (js_insert cmp x ys) = Suc (length ys)"
  by (induction ys) auto

lemma set_js_insert: "set (js_insert cmp x ys) = insert x (set ys)"
  by (induction ys) auto

lemma length_Array_sort: "length (Array_sort cmp xs) = length xs"
  by (induction xs) (auto simp: Array_sort_def length_js_insert)

lemma set_Array_sort: "set (Array_sort cmp xs) = set xs"
  by (induction xs) (auto simp: Array_sort_def set_js_insert)

lemma count_js_insert:
  "length (filter P (js_insert cmp x ys)) = (if P x then 1 else 0) + length (filter P ys)"
  by (induction ys) auto

lemma count_Array_sort: "length (filter P (Array_sort cmp xs)) = length (filter P xs)"
  by (induction xs) (auto simp: Array_sort_def count_js_insert)

text \<open>A descending comparator on a key is the library's stable insertion sort on the negated key.\<close>

lemma js_insert_insort_key:
  "js_insert (\<lambda>a b. f b - f a) x ys = insort_key (\<lambda>b. - f b) x ys"
  by (induction ys) auto

lemma Array_sort_sort_key: "Array_sort (\<lambda>a b. f b - f a) xs = sort_key (\<lambda>b. - f b) xs"
  by (induction xs) (auto simp: Array_sort_def js_insert_insort_key)



lemma sorted_Array_sort_desc:
  "sorted_wrt (\<lambda>x y. f y \<le> f x) (Array_sort (\<lambda>a b. f b - f a) xs)"
proof -
  have "sorted (map (\<lambda>b. - f b) (sort_key (\<lambda>b. - f b) xs))"
    by (rule sorted_sort_key)
  then show ?thesis
    by (simp add: Array_sort_sort_key sorted_map)
qed

lemma stable_Array_sort_desc:
  "filter (\<lambda>b. f b = k) (Array_sort (\<lambda>a b. f b - f a) xs) = filter (\<lambda>b. f b = k) xs"
proof -
  have "filter (\<lambda>b. - f b = - k) (sort_key (\<lambda>b. - f b) xs) = filter (\<lambda>b. - f b = - k) xs"
    by (rule sort_key_stable)
  then show ?thesis by (simp add: Array_sort_sort_key)
qed

lemma mset_Array_sort_desc: "mset (Array_sort (\<lambda>a b. f b - f a) xs) = mset xs"
  by (simp add: Array_sort_sort_key)

lemma filter_Array_sort_desc:
  "filter P (Array_sort (\<lambda>a b. f b - f a) xs) = Array_sort (\<lambda>a b. f b - f a) (filter P xs)"
  by (simp add: Array_sort_sort_key filter_sort)

lemma sorted_copy_store:
  assumes "a < length h"
  shows "fst (sorted_copy cmp h a) ! a = h ! a"
    and "fst (sorted_copy cmp h a) ! snd (sorted_copy cmp h a) = Array_sort cmp (h ! a)"
    and "snd (sorted_copy cmp h a) \<noteq> a"
  using assms by (simp_all add: sorted_copy_def spread_def sort_in_place_def nth_append)

lemma find_as_filter: "find P xs = (case filter P xs of [] \<Rightarrow> None | x # _ \<Rightarrow> Some x)"
  by (induction xs) auto

lemma Array_sort_desc_idem:
  "sorted_wrt (\<lambda>x y. f y \<le> f x) xs \<Longrightarrow> Array_sort (\<lambda>a b. f b - f a) xs = xs"
  by (simp add: Array_sort_sort_key sorted_map sort_key_id_if_sorted)

lemma sorted_wrt_take: "sorted_wrt R xs \<Longrightarrow> sorted_wrt R (take n xs)"
  by (metis append_take_drop_id sorted_wrt_append)

section \<open>Rounding to binary64\<close>

subsection \<open>Powers of two and the exponent\<close>

lemma pow2_power_int: "pow2 e = power_int 2 e"
  by (simp add: pow2_def power_int_def power_inverse [symmetric] inverse_eq_divide power_one_over)

lemma pow2_pos: "0 < pow2 e"
  by (simp add: pow2_power_int)

lemma pow2_add: "pow2 (a + b) = pow2 a * pow2 b"
  by (simp add: pow2_power_int power_int_add)

lemma pow2_mono: "a \<le> b \<Longrightarrow> pow2 a \<le> pow2 b"
  by (simp add: pow2_power_int power_int_increasing)

lemma pow2_strict_mono: "a < b \<Longrightarrow> pow2 a < pow2 b"
  by (simp add: pow2_power_int power_int_strict_increasing)

lemma pow2_le_iff: "pow2 a \<le> pow2 b \<longleftrightarrow> a \<le> b"
  by (meson pow2_mono pow2_strict_mono not_le)

lemma pow2_nat: "pow2 (int n) = 2 ^ n"
  by (simp add: pow2_def)

lemma pow2_neg_nat: "pow2 (- int n) = 1 / 2 ^ n"
  by (simp add: pow2_def)

lemma pow2_0: "pow2 0 = 1"
  by (simp add: pow2_def)

lemma bits_bounds: "0 < n \<Longrightarrow> 2 ^ (bits n - 1) \<le> n \<and> n < 2 ^ bits n"
proof (induction n rule: bits.induct)
  case (1 n)
  show ?case
  proof (cases "n div 2 = 0")
    case True
    with 1 have "n = 1" by (auto simp: div_eq_0_iff)
    then show ?thesis by (simp add: bits.simps)
  next
    case False
    then have h: "2 ^ (bits (n div 2) - 1) \<le> n div 2 \<and> n div 2 < 2 ^ bits (n div 2)"
      using 1 by simp
    have b: "bits n = Suc (bits (n div 2))" using 1(2) by (simp add: bits.simps [of n])
    have p: "0 < bits (n div 2)" using False by (simp add: bits.simps [of "n div 2"])
    then have "(2::nat) ^ bits (n div 2) = 2 * 2 ^ (bits (n div 2) - 1)"
      by (cases "bits (n div 2)") simp_all
    then show ?thesis using h b by (simp) linarith
  qed
qed

lemma bits_pos: "0 < n \<Longrightarrow> 0 < bits n"
  by (simp add: bits.simps [of n])

lemma of_nat_pow2_le: "(2::nat) ^ k \<le> m \<Longrightarrow> (2::rat) ^ k \<le> rat_of_nat m"
  by (metis of_nat_le_iff of_nat_numeral of_nat_power)

lemma of_nat_le_pow2: "m \<le> (2::nat) ^ k \<Longrightarrow> rat_of_nat m \<le> (2::rat) ^ k"
  by (metis of_nat_le_iff of_nat_numeral of_nat_power)

lemma ilog2_bounds:
  assumes "0 < x"
  shows "pow2 (ilog2 x) \<le> x \<and> x < pow2 (ilog2 x + 1)"
proof (cases "1 \<le> x")
  case True
  define m where "m = nat \<lfloor>x\<rfloor>"
  have "1 \<le> \<lfloor>x\<rfloor>" using True by linarith
  then have mm: "rat_of_nat m = rat_of_int \<lfloor>x\<rfloor>" "0 < m" unfolding m_def by simp_all
  have m: "rat_of_nat m \<le> x" "x < rat_of_nat m + 1" unfolding mm by linarith+
  have e: "ilog2 x = int (bits m) - 1" using True by (simp add: ilog2_def m_def)
  have bp: "0 < bits m" using mm(2) by (rule bits_pos)
  from bits_bounds [OF mm(2)] have b: "2 ^ (bits m - 1) \<le> m" "m + 1 \<le> 2 ^ bits m" by simp_all
  have "int (bits m) - 1 = int (bits m - 1)" using bp by simp
  then have p1: "pow2 (ilog2 x) = 2 ^ (bits m - 1)" unfolding e by (simp only: pow2_nat)
  have "(2::rat) ^ (bits m - 1) \<le> rat_of_nat m" using b(1) by (rule of_nat_pow2_le)
  then have lo: "pow2 (ilog2 x) \<le> x" using m(1) p1 by linarith
  have p2: "pow2 (ilog2 x + 1) = 2 ^ bits m" unfolding e by (simp add: pow2_nat)
  have "rat_of_nat (m + 1) \<le> 2 ^ bits m" using b(2) by (rule of_nat_le_pow2)
  then have "x < pow2 (ilog2 x + 1)" using m(2) p2 by simp
  with lo show ?thesis by simp
next
  case False
  define y where "y = 1 / x"
  define m where "m = nat (\<lceil>y\<rceil> - 1)"
  have y: "1 < y" using False assms by (simp add: y_def)
  then have c: "2 \<le> \<lceil>y\<rceil>" by linarith
  then have mm: "rat_of_nat m = rat_of_int \<lceil>y\<rceil> - 1" "0 < m" unfolding m_def by simp_all
  have m: "rat_of_nat m < y" "y \<le> rat_of_nat m + 1" unfolding mm by linarith+
  have e: "ilog2 x = - int (bits m)" using False by (simp add: ilog2_def m_def y_def)
  have bp: "0 < bits m" using mm(2) by (rule bits_pos)
  from bits_bounds [OF mm(2)] have b: "2 ^ (bits m - 1) \<le> m" "m + 1 \<le> 2 ^ bits m" by simp_all
  have "rat_of_nat (m + 1) \<le> 2 ^ bits m" using b(2) by (rule of_nat_le_pow2)
  then have "y \<le> 2 ^ bits m" using m(2) by simp
  then have "1 / 2 ^ bits m \<le> x" using assms unfolding y_def
    by (simp add: field_simps)
  moreover have "pow2 (ilog2 x) = 1 / 2 ^ bits m" unfolding e by (rule pow2_neg_nat)
  ultimately have lo: "pow2 (ilog2 x) \<le> x" by simp
  have "(2::rat) ^ (bits m - 1) \<le> rat_of_nat m" using b(1) by (rule of_nat_pow2_le)
  then have "2 ^ (bits m - 1) < y" using m(1) by linarith
  then have "x < 1 / 2 ^ (bits m - 1)" using assms unfolding y_def by (simp add: field_simps)
  moreover have "ilog2 x + 1 = - int (bits m - 1)" unfolding e using bp by simp
  then have "pow2 (ilog2 x + 1) = 1 / 2 ^ (bits m - 1)"
    by (simp only: pow2_neg_nat)
  ultimately show ?thesis using lo by simp
qed

lemma ilog2_le: "0 < x \<Longrightarrow> x \<le> pow2 k \<Longrightarrow> ilog2 x \<le> k"
  using ilog2_bounds [of x] pow2_le_iff [of "ilog2 x" k] by linarith

lemma ilog2_ge:
  assumes "0 < x" "pow2 k \<le> x"
  shows "k \<le> ilog2 x"
proof (rule ccontr)
  assume "\<not> k \<le> ilog2 x"
  then have "ilog2 x + 1 \<le> k" by simp
  then have "pow2 (ilog2 x + 1) \<le> pow2 k" by (rule pow2_mono)
  then show False using ilog2_bounds [OF assms(1)] assms(2) by simp
qed

lemma rne_range: "rne x = \<lfloor>x\<rfloor> \<or> rne x = \<lfloor>x\<rfloor> + 1"
  by (simp add: rne_def Let_def)

lemma rne_error: "\<bar>rat_of_int (rne x) - x\<bar> \<le> 1 / 2"
proof -
  have f: "rat_of_int \<lfloor>x\<rfloor> \<le> x" "x < rat_of_int \<lfloor>x\<rfloor> + 1" by linarith+
  show ?thesis
    unfolding rne_def Let_def using f by (auto simp: abs_le_iff)
qed

lemma rne_of_int: "rne (of_int n) = n"
  by (simp add: rne_def)

lemma rne_le: "x \<le> of_int n \<Longrightarrow> rne x \<le> n"
proof -
  assume a: "x \<le> of_int n"
  show ?thesis
  proof (cases "x = of_int n")
    case True then show ?thesis by (simp add: rne_of_int)
  next
    case False
    with a have "x < of_int n" by simp
    then have "\<lfloor>x\<rfloor> < n" by (simp add: floor_less_iff)
    then show ?thesis using rne_range [of x] by auto
  qed
qed

lemma rne_ge: "of_int n \<le> x \<Longrightarrow> n \<le> rne x"
  using rne_range [of x] le_floor_iff [of n x] by auto

subsection \<open>Rounding to 53 bits\<close>

lemma round53_quantum: "round53 x = of_int (rne (x / quantum x)) * quantum x"
  by (simp add: round53_def)

lemma quantum_pos: "0 < quantum x"
  by (simp add: quantum_def pow2_pos)

lemma round53_grid_le:
  assumes "x \<le> of_int k * quantum x"
  shows "round53 x \<le> of_int k * quantum x"
proof -
  have "x / quantum x \<le> of_int k"
    using assms quantum_pos [of x] by (simp add: field_simps)
  then have "rne (x / quantum x) \<le> k" by (rule rne_le)
  then have "rat_of_int (rne (x / quantum x)) \<le> rat_of_int k" by simp
  then show ?thesis
    unfolding round53_quantum using quantum_pos [of x] by (simp add: mult_right_mono)
qed

lemma round53_grid_ge:
  assumes "of_int k * quantum x \<le> x"
  shows "of_int k * quantum x \<le> round53 x"
proof -
  have "of_int k \<le> x / quantum x"
    using assms quantum_pos [of x] by (simp add: field_simps)
  then have "k \<le> rne (x / quantum x)" by (rule rne_ge)
  then have "rat_of_int k \<le> rat_of_int (rne (x / quantum x))" by simp
  then show ?thesis
    unfolding round53_quantum using quantum_pos [of x] by (simp add: mult_right_mono)
qed

lemma round53_error: "\<bar>round53 x - x\<bar> \<le> quantum x / 2"
proof -
  have "\<bar>rat_of_int (rne (x / quantum x)) - x / quantum x\<bar> \<le> 1 / 2" by (rule rne_error)
  then have "\<bar>rat_of_int (rne (x / quantum x)) - x / quantum x\<bar> * quantum x \<le> 1 / 2 * quantum x"
    using quantum_pos [of x] by (simp add: mult_right_mono)
  moreover have "\<bar>rat_of_int (rne (x / quantum x)) - x / quantum x\<bar> * quantum x = \<bar>round53 x - x\<bar>"
  proof -
    have "(rat_of_int (rne (x / quantum x)) - x / quantum x) * quantum x = round53 x - x"
      using quantum_pos [of x] by (simp add: round53_quantum left_diff_distrib)
    then have "\<bar>round53 x - x\<bar> = \<bar>rat_of_int (rne (x / quantum x)) - x / quantum x\<bar> * \<bar>quantum x\<bar>"
      by (simp only: abs_mult [symmetric])
    then show ?thesis using quantum_pos [of x] by simp
  qed
  ultimately show ?thesis by simp
qed

lemma quantum_le:
  assumes "0 < x" "x < pow2 (k + 1)" "- 1022 \<le> k"
  shows "quantum x \<le> pow2 (k - 52)"
proof -
  have "pow2 (ilog2 x) < pow2 (k + 1)" using ilog2_bounds [OF assms(1)] assms(2) by simp
  then have "ilog2 x < k + 1" using pow2_mono [of "k + 1" "ilog2 x"] by (cases "ilog2 x < k + 1") auto
  then show ?thesis unfolding quantum_def using assms(3) by (intro pow2_mono) simp
qed

text \<open>An integer is a multiple of the quantum when the exponent is at most 52.\<close>

lemma int_on_grid:
  assumes "0 < x" "x < pow2 53"
  shows "\<exists>k. rat_of_int j = of_int k * quantum x"
proof -
  define e where "e = max (ilog2 x) (- 1022)"
  have "quantum x \<le> pow2 (52 - 52)" by (rule quantum_le) (use assms in simp_all)
  then have "e - 52 \<le> 0" unfolding quantum_def e_def [symmetric] by (simp add: pow2_le_iff)
  then have e: "e \<le> 52" by simp
  have "pow2 (52 - e) * pow2 (e - 52) = pow2 0" by (simp flip: pow2_add)
  then have one: "pow2 (52 - e) * quantum x = 1" by (simp add: quantum_def e_def pow2_0)
  have "pow2 (52 - e) = 2 ^ nat (52 - e)" using e by (simp add: pow2_def)
  also have "\<dots> = rat_of_int (2 ^ nat (52 - e))" by simp
  finally have "rat_of_int (2 ^ nat (52 - e)) * quantum x = 1" using one by simp
  then have "rat_of_int j = of_int (j * 2 ^ nat (52 - e)) * quantum x"
    by (simp add: mult.assoc)
  then show ?thesis by blast
qed

lemma round53_le_int:
  assumes "0 < x" "x \<le> of_int j" "j < 2 ^ 53"
  shows "round53 x \<le> of_int j"
proof -
  have "rat_of_int j < 2 ^ 53" using assms(3) by (metis of_int_less_iff of_int_numeral of_int_power)
  then have "x < pow2 53" using assms(2) by (simp add: pow2_def)
  then obtain k where k: "rat_of_int j = of_int k * quantum x"
    using int_on_grid [OF assms(1)] by blast
  show ?thesis using round53_grid_le [of x k] assms(2) unfolding k by simp
qed

lemma round53_ge_pow2:
  assumes "0 < x" "- 1022 \<le> ilog2 x"
  shows "pow2 (ilog2 x) \<le> round53 x"
proof -
  have q: "quantum x = pow2 (ilog2 x - 52)" using assms(2) by (simp add: quantum_def max_def)
  have "pow2 (ilog2 x) = pow2 52 * pow2 (ilog2 x - 52)" by (simp flip: pow2_add)
  also have "pow2 52 = rat_of_int (2 ^ 52)" by (simp add: pow2_def)
  finally have g: "pow2 (ilog2 x) = rat_of_int (2 ^ 52) * quantum x" unfolding q .
  show ?thesis using round53_grid_ge [of "2 ^ 52" x] ilog2_bounds [OF assms(1)] unfolding g by simp
qed

lemma round53_ge_int:
  assumes "0 < j" "of_int j \<le> x" "j < 2 ^ 53"
  shows "of_int j \<le> round53 x"
proof -
  have "0 < rat_of_int j" using assms(1) by simp
  then have x: "0 < x" using assms(2) by linarith
  have j: "rat_of_int j < 2 ^ 53" using assms(3) by (metis of_int_less_iff of_int_numeral of_int_power)
  show ?thesis
  proof (cases "x < pow2 53")
    case True
    obtain k where k: "rat_of_int j = of_int k * quantum x"
      using int_on_grid [OF x True] by blast
    show ?thesis using round53_grid_ge [of k x] assms(2) unfolding k by simp
  next
    case False
    then have "pow2 53 \<le> x" by simp
    then have "53 \<le> ilog2 x" by (rule ilog2_ge [OF x])
    then have "pow2 53 \<le> pow2 (ilog2 x)" "- 1022 \<le> ilog2 x" by (simp_all add: pow2_mono)
    then have "pow2 53 \<le> round53 x" using round53_ge_pow2 [OF x] by linarith
    moreover have "pow2 53 = 2 ^ 53" by (simp add: pow2_def)
    ultimately show ?thesis using j by linarith
  qed
qed

lemma round53_nonneg: "0 < x \<Longrightarrow> 0 \<le> round53 x"
  using round53_grid_ge [of 0 x] by simp

lemma pow2_1024_gt: "rat_of_int j < 2 ^ 53 \<Longrightarrow> rat_of_int j < pow2 1024"
proof -
  assume "rat_of_int j < 2 ^ 53"
  moreover have "pow2 53 \<le> pow2 1024" by (rule pow2_mono) simp
  moreover have "pow2 53 = 2 ^ 53" by (simp add: pow2_def)
  ultimately show ?thesis by linarith
qed

lemma dbl_pos: "0 < x \<Longrightarrow> dbl x = (if pow2 1024 \<le> round53 x then PosInf else Fin (round53 x))"
  by (simp add: dbl_def Let_def)

lemma dbl_le_int:
  assumes "0 < x" "x \<le> of_int j" "j < 2 ^ 53"
  shows "dbl x = Fin (round53 x) \<and> 0 \<le> round53 x \<and> round53 x \<le> of_int j"
proof -
  have r: "round53 x \<le> of_int j" by (rule round53_le_int [OF assms])
  have "rat_of_int j < 2 ^ 53" using assms(3) by (metis of_int_less_iff of_int_numeral of_int_power)
  then have "rat_of_int j < pow2 1024" by (rule pow2_1024_gt)
  then have "\<not> pow2 1024 \<le> round53 x" using r by linarith
  then show ?thesis using r round53_nonneg [OF assms(1)] by (simp add: dbl_pos [OF assms(1)])
qed

lemma dbl_ge_int:
  assumes "0 < j" "of_int j \<le> x" "j < 2 ^ 53"
  shows "dbl x = PosInf \<or> (dbl x = Fin (round53 x) \<and> of_int j \<le> round53 x)"
proof -
  have "0 < rat_of_int j" using assms(1) by simp
  then have x: "0 < x" using assms(2) by linarith
  show ?thesis using round53_ge_int [OF assms] by (simp add: dbl_pos [OF x])
qed

lemma round53_error_below:
  assumes "0 < x" "x < pow2 (k + 1)" "- 1022 \<le> k"
  shows "\<bar>round53 x - x\<bar> \<le> pow2 (k - 53)"
proof -
  have "quantum x \<le> pow2 (k - 52)" by (rule quantum_le [OF assms])
  moreover have "pow2 (k - 52) = pow2 (k - 53) * pow2 1" by (simp flip: pow2_add)
  moreover have "pow2 1 = 2" by (simp add: pow2_def)
  ultimately have "quantum x / 2 \<le> pow2 (k - 53)" by simp
  then show ?thesis using round53_error [of x] by linarith
qed

text \<open>The quotient of two counts, the smaller over the larger.\<close>

lemma quotient_unit:
  assumes "0 < a" "a \<le> b"
  shows "js_div a b = Fin (round53 (a / b))"
    and "0 \<le> round53 (a / b)" and "round53 (a / b) \<le> 1"
    and "\<bar>round53 (a / b) - a / b\<bar> \<le> 1 / 2 ^ 53"
proof -
  have b: "0 < b" using assms by linarith
  have x: "0 < a / b" "a / b \<le> rat_of_int 1" using assms b by simp_all
  from dbl_le_int [OF x] show "js_div a b = Fin (round53 (a / b))"
    "0 \<le> round53 (a / b)" "round53 (a / b) \<le> 1"
    using b by (simp_all add: js_div_def)
  have "a / b < pow2 (0 + 1)" using x(2) by (simp add: pow2_def)
  from round53_error_below [OF x(1) this] show "\<bar>round53 (a / b) - a / b\<bar> \<le> 1 / 2 ^ 53"
    by (simp add: pow2_def)
qed

lemma product_hundred:
  assumes "0 < y" "y \<le> 1"
  shows "js_mul (Fin y) 100 = Fin (round53 (y * 100))"
    and "0 \<le> round53 (y * 100)" and "round53 (y * 100) \<le> 100"
    and "\<bar>round53 (y * 100) - y * 100\<bar> \<le> 1 / 2 ^ 47"
proof -
  have x: "0 < y * 100" "y * 100 \<le> rat_of_int 100" using assms by simp_all
  from dbl_le_int [OF x] show "js_mul (Fin y) 100 = Fin (round53 (y * 100))"
    "0 \<le> round53 (y * 100)" "round53 (y * 100) \<le> 100"
    by simp_all
  have "y * 100 < pow2 (6 + 1)" using x(2) by (simp add: pow2_def)
  from round53_error_below [OF x(1) this] show "\<bar>round53 (y * 100) - y * 100\<bar> \<le> 1 / 2 ^ 47"
    by (simp add: pow2_def)
qed

text \<open>
  The percentage of a part in a whole: the double that is rounded is within
  \<open>164 / 2^53\<close> of the exact percentage.
\<close>

lemma js_percent_part:
  assumes "0 \<le> a" "a \<le> b" "0 < b"
  shows "\<exists>y. js_percent a b = Fin (of_int \<lfloor>y + 1 / 2\<rfloor>) \<and> 0 \<le> y \<and> y \<le> 100 \<and>
             \<bar>y - 100 * a / b\<bar> \<le> 164 / 2 ^ 53"
proof (cases "a = 0")
  case True
  have "js_percent 0 b = Fin (of_int \<lfloor>(0::rat) + 1 / 2\<rfloor>)"
    using assms(3) by (simp add: js_percent_def js_div_def dbl_def)
  then show ?thesis using True by (intro exI [of _ 0]) simp
next
  case False
  then have a: "0 < a" using assms(1) by simp
  define y1 where "y1 = round53 (a / b)"
  note q = quotient_unit [OF a assms(2), folded y1_def]
  show ?thesis
  proof (cases "y1 = 0")
    case True
    have "js_percent a b = Fin (of_int \<lfloor>(0::rat) + 1 / 2\<rfloor>)"
      using q(1) True by (simp add: js_percent_def dbl_def)
    moreover have "\<bar>0 - 100 * a / b\<bar> \<le> 164 / 2 ^ 53"
      using q(4) True by simp
    ultimately show ?thesis by (intro exI [of _ 0]) simp
  next
    case False
    then have y1: "0 < y1" using q(2) by simp
    define y2 where "y2 = round53 (y1 * 100)"
    note p = product_hundred [OF y1 q(3), folded y2_def]
    have "js_percent a b = Fin (of_int \<lfloor>y2 + 1 / 2\<rfloor>)"
      using q(1) p(1) by (simp add: js_percent_def)
    moreover have "\<bar>y2 - 100 * a / b\<bar> \<le> 164 / 2 ^ 53"
    proof -
      have "y1 * 100 - 100 * a / b = 100 * (y1 - a / b)" by (simp add: algebra_simps)
      then have "\<bar>y1 * 100 - 100 * a / b\<bar> = 100 * \<bar>y1 - a / b\<bar>" by (simp only: abs_mult abs_numeral)
      then have e1: "\<bar>y1 * 100 - 100 * a / b\<bar> \<le> 100 / 2 ^ 53" using q(4) by simp
      have "\<bar>(y2 - y1 * 100) + (y1 * 100 - 100 * a / b)\<bar> \<le>
            \<bar>y2 - y1 * 100\<bar> + \<bar>y1 * 100 - 100 * a / b\<bar>" by (rule abs_triangle_ineq)
      then have "\<bar>y2 - 100 * a / b\<bar> \<le> 1 / 2 ^ 47 + 100 / 2 ^ 53" using e1 p(4) by simp
      also have "(1::rat) / 2 ^ 47 + 100 / 2 ^ 53 = 164 / 2 ^ 53" by simp
      finally show ?thesis .
    qed
    ultimately show ?thesis using p(2,3) by blast
  qed
qed

subsection \<open>The rounded percentage against the exact one\<close>

lemma round_near:
  fixes y :: rat and N D :: int
  assumes D: "0 < D" and near: "\<bar>y + 1 / 2 - of_int N / of_int D\<bar> < 1 / of_int D"
  shows "(\<not> D dvd N \<longrightarrow> \<lfloor>y + 1 / 2\<rfloor> = N div D) \<and>
         (D dvd N \<longrightarrow> \<lfloor>y + 1 / 2\<rfloor> = N div D \<or> \<lfloor>y + 1 / 2\<rfloor> = N div D - 1)"
proof -
  define k where "k = N div D"
  define r where "r = N mod D"
  define Y where "Y = y + 1 / 2"
  have N: "N = k * D + r" and r: "0 \<le> r" "r < D"
    using D by (simp_all add: k_def r_def)
  have Dr: "0 < rat_of_int D" using D by simp
  have "rat_of_int N / of_int D = of_int k + of_int r / of_int D"
    using Dr by (simp add: N field_simps)
  then have b: "of_int k + (of_int r - 1) / of_int D < Y" "Y < of_int k + (of_int r + 1) / of_int D"
    using near Dr unfolding Y_def by (simp_all add: abs_less_iff field_simps)
  have one: "1 / rat_of_int D \<le> 1" using D by simp
  show ?thesis
  proof (cases "r = 0")
    case True
    then have "D dvd N" using N by simp
    moreover have "of_int k - 1 < Y" "Y < of_int k + 1"
      using b one True by (simp_all add: field_simps)
    then have "\<lfloor>Y\<rfloor> = k \<or> \<lfloor>Y\<rfloor> = k - 1"
      by (metis floor_unique le_less_linear less_eq_rat_def of_int_diff of_int_1 diff_add_cancel)
    ultimately show ?thesis by (simp add: Y_def k_def)
  next
    case False
    then have nd: "\<not> D dvd N" using r D by (simp add: r_def dvd_eq_mod_eq_0)
    have r1: "1 \<le> r" "r + 1 \<le> D" using False r by simp_all
    have "0 \<le> (rat_of_int r - 1) / of_int D" using r1(1) Dr by simp
    then have lo: "of_int k \<le> Y" using b(1) by linarith
    have "rat_of_int (r + 1) \<le> rat_of_int D" using r1(2) by (simp only: of_int_le_iff)
    then have "(rat_of_int r + 1) / of_int D \<le> 1" using Dr by simp
    then have hi: "Y < of_int k + 1" using b(2) by linarith
    have "\<lfloor>Y\<rfloor> = k" using lo hi by (rule floor_unique)
    then show ?thesis using nd by (simp add: Y_def k_def)
  qed
qed

lemma floor_half_up: "0 < n \<Longrightarrow> \<lfloor>100 * rat_of_int c / of_int n + 1 / 2\<rfloor> = (200 * c + n) div (2 * n)"
proof -
  assume n: "0 < n"
  have "100 * rat_of_int c / of_int n + 1 / 2 = rat_of_int (200 * c + n) / rat_of_int (2 * n)"
    using n by (simp add: field_simps)
  then show ?thesis by (simp only: floor_divide_of_int_eq)
qed

lemma js_percent_exact:
  assumes "0 \<le> c" "c \<le> n" "0 < n" "n \<le> 2 ^ 44"
  shows "\<exists>r. js_percent (of_int c) (of_int n) = Fin (of_int r) \<and> 0 \<le> r \<and> r \<le> 100 \<and>
           (\<not> 2 * n dvd 200 * c + n \<longrightarrow> r = \<lfloor>100 * rat_of_int c / of_int n + 1 / 2\<rfloor>) \<and>
           (2 * n dvd 200 * c + n \<longrightarrow> r = \<lfloor>100 * rat_of_int c / of_int n + 1 / 2\<rfloor> \<or>
                                     r = \<lfloor>100 * rat_of_int c / of_int n + 1 / 2\<rfloor> - 1)"
proof -
  have a: "0 \<le> rat_of_int c" "rat_of_int c \<le> of_int n" "0 < rat_of_int n" using assms by simp_all
  from js_percent_part [OF a] obtain y :: rat where y:
    "js_percent (of_int c) (of_int n) = Fin (of_int \<lfloor>y + 1 / 2\<rfloor>)" "0 \<le> y" "y \<le> 100"
    "\<bar>y - 100 * of_int c / of_int n\<bar> \<le> 164 / 2 ^ 53" by blast
  have "rat_of_int (2 * n) \<le> rat_of_int (2 ^ 45)" using assms(4) by (simp only: of_int_le_iff) simp
  then have "rat_of_int (2 * n) \<le> 2 ^ 45" by simp
  then have "1 / 2 ^ 45 \<le> 1 / rat_of_int (2 * n)" using a(3) by (simp add: field_simps)
  moreover have "(164::rat) / 2 ^ 53 < 1 / 2 ^ 45" by simp
  ultimately have small: "\<bar>y - 100 * of_int c / of_int n\<bar> < 1 / rat_of_int (2 * n)"
    using y(4) by linarith
  have "y + 1 / 2 - rat_of_int (200 * c + n) / rat_of_int (2 * n) = y - 100 * of_int c / of_int n"
    using a(3) by (simp add: field_simps)
  then have near: "\<bar>y + 1 / 2 - rat_of_int (200 * c + n) / rat_of_int (2 * n)\<bar> < 1 / rat_of_int (2 * n)"
    using small by simp
  have D: "0 < 2 * n" using assms(3) by simp
  note rn = round_near [OF D near]
  have "0 \<le> \<lfloor>y + 1 / 2\<rfloor>" using y(2) by simp
  moreover have "\<lfloor>y + 1 / 2\<rfloor> \<le> 100" using y(3) by (simp add: floor_le_iff) 
  ultimately show ?thesis
    using y(1) rn unfolding floor_half_up [OF assms(3)] by blast
qed

lemma js_percent_whole:
  assumes "0 < b" "b \<le> a"
  shows "js_percent a b = PosInf \<or> (\<exists>r. js_percent a b = Fin (of_int r) \<and> 100 \<le> r)"
proof -
  have x: "rat_of_int 1 \<le> a / b" using assms by simp
  have d: "js_div a b = dbl (a / b)" using assms(1) by (simp add: js_div_def)
  from dbl_ge_int [OF _ x] have "dbl (a / b) = PosInf \<or> (dbl (a / b) = Fin (round53 (a / b)) \<and> 1 \<le> round53 (a / b))"
    by simp
  then show ?thesis
  proof
    assume "dbl (a / b) = PosInf"
    then show ?thesis by (simp add: js_percent_def d)
  next
    assume h: "dbl (a / b) = Fin (round53 (a / b)) \<and> 1 \<le> round53 (a / b)"
    define y1 where "y1 = round53 (a / b)"
    have "rat_of_int 100 \<le> y1 * 100" using h by (simp add: y1_def)
    from dbl_ge_int [OF _ this] have
      "dbl (y1 * 100) = PosInf \<or> (dbl (y1 * 100) = Fin (round53 (y1 * 100)) \<and> 100 \<le> round53 (y1 * 100))"
      by simp
    then show ?thesis
    proof
      assume "dbl (y1 * 100) = PosInf"
      then show ?thesis using h by (simp add: js_percent_def d y1_def)
    next
      assume g: "dbl (y1 * 100) = Fin (round53 (y1 * 100)) \<and> 100 \<le> round53 (y1 * 100)"
      then have "100 \<le> \<lfloor>round53 (y1 * 100) + 1 / 2\<rfloor>" by (simp add: le_floor_iff)
      then show ?thesis using h g by (simp add: js_percent_def d y1_def)
    qed
  qed
qed

text \<open>The doubles nearest to 0.1 and to 23/40, and the product of the latter with 100.\<close>

lemma dbl_tenth: "dbl (1 / 10) = Fin (3602879701896397 / 36028797018963968)"
  by code_simp

lemma dbl_23_40: "dbl (23 / 40) = Fin (2589569785738035 / 4503599627370496)"
  by code_simp

lemma js_mul_23_40: "js_mul (dbl (23 / 40)) 100 = Fin (8092405580431359 / 140737488355328)"
  by code_simp

lemma dbl_1: "dbl 1 = Fin 1"
  by code_simp

lemma dbl_100: "dbl 100 = Fin 100"
  by code_simp

lemma js_percent_23_40: "js_percent 23 40 = Fin 57"
  by code_simp

lemma Math_round_of_int: "Math_round (Fin (of_int k)) = Fin (of_int k)"
proof -
  have "\<lfloor>rat_of_int k + 1 / 2\<rfloor> = k" by linarith
  then show ?thesis by simp
qed

lemma js_percent_all: "b \<noteq> 0 \<Longrightarrow> js_percent b b = Fin 100"
  using Math_round_of_int [of 100] by (simp add: js_percent_def js_div_def dbl_1 dbl_100)

lemma js_percent_none: "b \<noteq> 0 \<Longrightarrow> js_percent 0 b = Fin 0"
  using Math_round_of_int [of 0] by (simp add: js_percent_def js_div_def dbl_def)

lemma js_percent_rounded:
  assumes "0 \<le> c" "c \<le> n" "0 < n" "n \<le> 2 ^ 44"
  shows "rounded_percent (js_percent (of_int c) (of_int n)) c n"
    and "in_percent_range (js_percent (of_int c) (of_int n))"
proof -
  from js_percent_exact [OF assms] obtain r where r:
    "js_percent (of_int c) (of_int n) = Fin (of_int r)" "0 \<le> r" "r \<le> 100"
    "\<not> 2 * n dvd 200 * c + n \<longrightarrow> r = \<lfloor>100 * rat_of_int c / of_int n + 1 / 2\<rfloor>"
    "2 * n dvd 200 * c + n \<longrightarrow> r = \<lfloor>100 * rat_of_int c / of_int n + 1 / 2\<rfloor> \<or>
        r = \<lfloor>100 * rat_of_int c / of_int n + 1 / 2\<rfloor> - 1" by blast
  show "rounded_percent (js_percent (of_int c) (of_int n)) c n"
    unfolding rounded_percent_def half_up_def r(1) using r(4,5) by auto
  show "in_percent_range (js_percent (of_int c) (of_int n))"
    unfolding in_percent_range_def r(1) using r(2,3) by simp
qed

lemma js_percent_in_range:
  assumes "0 \<le> a" "a \<le> b" "0 < b"
  shows "in_percent_range (js_percent a b)"
proof -
  from js_percent_part [OF assms] obtain y :: rat where y:
    "js_percent a b = Fin (of_int \<lfloor>y + 1 / 2\<rfloor>)" "0 \<le> y" "y \<le> 100" by blast
  have "0 \<le> \<lfloor>y + 1 / 2\<rfloor>" using y(2) by simp
  moreover have "\<lfloor>y + 1 / 2\<rfloor> \<le> 100" using y(3) by (simp add: floor_le_iff)
  ultimately show ?thesis unfolding in_percent_range_def y(1) by simp
qed

lemma dbl_not_NaN: "dbl x \<noteq> NaN"
  by (simp add: dbl_def Let_def)

lemma js_percent_not_NaN: "b \<noteq> 0 \<Longrightarrow> js_percent a b \<noteq> NaN"
proof -
  assume b: "b \<noteq> 0"
  have "js_mul (dbl x) 100 \<noteq> NaN" for x
    by (cases "dbl x") (simp_all add: dbl_not_NaN)
  then have "js_mul (js_div a b) 100 \<noteq> NaN" using b by (simp add: js_div_def)
  then show ?thesis unfolding js_percent_def by (cases "js_mul (js_div a b) 100") simp_all
qed

lemma calculatePercentile_js_percent:
  "calculatePercentile v pop =
     js_percent (of_nat (length (filter (\<lambda>m. m < v) pop))) (of_nat (length pop))"
  by (simp add: calculatePercentile_def js_percent_def Let_def count_Array_sort length_Array_sort)

subsection \<open>The counters of the position breakdown\<close>

lemma fold_count_llm:
  "fold count_llm llm c =
     \<lparr>totalQueriesWithBrand = totalQueriesWithBrand c + bucket_sum (\<lambda>r. True) llm,
      topPositionCount = topPositionCount c + bucket_sum (\<lambda>r. 0 < r \<and> r \<le> 1) llm,
      midPositionCount = midPositionCount c + bucket_sum (\<lambda>r. 1 < r \<and> r \<le> 4) llm,
      lowPositionCount = lowPositionCount c + bucket_sum (\<lambda>r. 4 < r) llm\<rparr>"
proof (induction llm arbitrary: c)
  case Nil
  then show ?case by simp
next
  case (Cons d ds)
  show ?case
  proof (cases d)
    case None
    then show ?thesis using Cons [of c] by (simp add: count_llm_def)
  next
    case (Some e)
    then show ?thesis using Cons [of "count_llm (Some e) c"]
      by (auto simp: count_llm_def Let_def)
  qed
qed

lemma count_all_buckets:
  "totalQueriesWithBrand (count_all llm) = bucket_sum (\<lambda>r. True) llm"
  "topPositionCount (count_all llm) = bucket_sum (\<lambda>r. 0 < r \<and> r \<le> 1) llm"
  "midPositionCount (count_all llm) = bucket_sum (\<lambda>r. 1 < r \<and> r \<le> 4) llm"
  "lowPositionCount (count_all llm) = bucket_sum (\<lambda>r. 4 < r) llm"
  by (simp_all add: count_all_def fold_count_llm)

lemma bucket_sum_bounds:
  "nonneg_queries llm \<Longrightarrow> 0 \<le> bucket_sum band llm \<and> bucket_sum band llm \<le> bucket_sum (\<lambda>r. True) llm"
  by (induction band llm rule: bucket_sum.induct) (auto simp: nonneg_queries_def)

lemma percent_of_js_percent: "0 < n \<Longrightarrow> percent_of c n = js_percent (of_int c) (of_int n)"
  by (simp add: percent_of_def js_percent_def)

lemma percent_of_not_NaN: "percent_of c n \<noteq> NaN"
  by (cases "0 < n") (simp_all add: percent_of_js_percent js_percent_not_NaN, simp add: percent_of_def)

lemma positionBreakdown_v2_fields:
  "topPosition (positionBreakdown_v2 llm) =
     percent_of (bucket_sum (\<lambda>r. 0 < r \<and> r \<le> 1) llm)
       (if bucket_sum (\<lambda>r. True) llm = 0 then 1 else bucket_sum (\<lambda>r. True) llm)"
  "midPosition (positionBreakdown_v2 llm) =
     percent_of (bucket_sum (\<lambda>r. 1 < r \<and> r \<le> 4) llm)
       (if bucket_sum (\<lambda>r. True) llm = 0 then 1 else bucket_sum (\<lambda>r. True) llm)"
  "lowPosition (positionBreakdown_v2 llm) =
     percent_of (bucket_sum (\<lambda>r. 4 < r) llm)
       (if bucket_sum (\<lambda>r. True) llm = 0 then 1 else bucket_sum (\<lambda>r. True) llm)"
  by (simp_all add: positionBreakdown_v2_def Let_def count_all_buckets)

lemma bucket_percent:
  assumes "nonneg_queries llm"
  shows "in_percent_range
           (percent_of (bucket_sum band llm)
              (if bucket_sum (\<lambda>r. True) llm = 0 then 1 else bucket_sum (\<lambda>r. True) llm))"
    and "bucket_sum (\<lambda>r. True) llm = 0 \<Longrightarrow>
         percent_of (bucket_sum band llm)
              (if bucket_sum (\<lambda>r. True) llm = 0 then 1 else bucket_sum (\<lambda>r. True) llm) = Fin 0"
    and "0 < bucket_sum (\<lambda>r. True) llm \<Longrightarrow> bucket_sum (\<lambda>r. True) llm \<le> 2 ^ 44 \<Longrightarrow>
         rounded_percent
           (percent_of (bucket_sum band llm)
              (if bucket_sum (\<lambda>r. True) llm = 0 then 1 else bucket_sum (\<lambda>r. True) llm))
           (bucket_sum band llm) (bucket_sum (\<lambda>r. True) llm)"
proof -
  note b = bucket_sum_bounds [OF assms, of band]
  define t where "t = bucket_sum (\<lambda>r. True) llm"
  define s where "s = bucket_sum band llm"
  have st: "0 \<le> s" "s \<le> t" using b by (simp_all add: s_def t_def)
  show z: "t = 0 \<Longrightarrow> percent_of s (if t = 0 then 1 else t) = Fin 0"
    using st by (simp add: percent_of_js_percent js_percent_none)
  show "in_percent_range (percent_of s (if t = 0 then 1 else t))"
  proof (cases "t = 0")
    case True
    then show ?thesis using z by (simp add: in_percent_range_def)
  next
    case False
    then have "0 < t" using st by simp
    then show ?thesis using st False
      by (simp add: percent_of_js_percent js_percent_in_range)
  qed
  show "0 < t \<Longrightarrow> t \<le> 2 ^ 44 \<Longrightarrow> rounded_percent (percent_of s (if t = 0 then 1 else t)) s t"
    using st by (simp add: percent_of_js_percent js_percent_rounded)
qed

subsection \<open>Values used in the examples\<close>

lemma half_up_23_40: "half_up (100 * 23 / 40) = 58"
  unfolding half_up_def by linarith

lemma example_population_counts:
  "length (filter (\<lambda>m. m < 5) example_population) = 23" "length example_population = 40"
  by (simp_all add: example_population_def)

lemma js_percent_5_10: "js_percent 5 10 = Fin 50"
  by code_simp

section \<open>The percentile of an empty population\<close>

text \<open>
  C1. The claim: on an empty population \<open>calculatePercentile\<close> returns 0. The code has no
  guard for the empty array: the count and the length are both 0, the quotient \<open>0 / 0\<close>
  is NaN, and NaN goes through the product and through \<^verbatim>\<open>Math.round\<close>.
\<close>

theorem calculatePercentile_empty_population: "calculatePercentile v [] = NaN"
  by (simp add: calculatePercentile_def Array_sort_def js_div_def)

section \<open>The position of a brand that is not in the list\<close>











text \<open>The two declarations of \<open>formatLogoUrl\<close> on a domain, a URL and a missing logo.\<close>

lemma formatLogoUrl_examples:
  "formatLogoUrl_v1 None ''acme.com'' =
     ''https://www.google.com/s2/favicons?domain=https://www.acme.com&sz=128''"
  "formatLogoUrl_v1 None ''HTTPS://www.acme.com/logo.png'' = ''HTTPS://www.acme.com/logo.png''"
  "formatLogoUrl_v2 (Some ''https://icons.example/{domain}'') ''www.acme.com/about'' =
     Inr ''https://icons.example/https://www.acme.com''"
  "formatLogoUrl_v2 None ''acme.com'' = Inl TypeError"
  "formatLogoUrl_v2 None [] = Inr []"
  by (simp_all add: formatLogoUrl_v1_def formatLogoUrl_v2_def test_protocol_def https_pattern_def
      http_pattern_def www_pattern_def normalizeDomain_v1_def normalizeDomain_v2_def
      replace_protocol_def replace_www_def FAVICON_URL_TEMPLATE_v1_def or_str_def
      String_replace_def Let_def)




section \<open>The table of response rates\<close>

lemma by_rate_filter: "filter P (by_rate rows) = by_rate (filter P rows)"
  by (simp add: by_rate_def filter_Array_sort_desc)

lemma by_rate_sorted: "sorted_wrt (\<lambda>x y. responseRate y \<le> responseRate x) (by_rate rows)"
  by (simp add: by_rate_def sorted_Array_sort_desc)

lemma by_rate_idem: "sorted_wrt (\<lambda>x y. responseRate y \<le> responseRate x) rows \<Longrightarrow> by_rate rows = rows"
  by (simp add: by_rate_def Array_sort_desc_idem)

lemma responseRates_v1_parts:
  fixes name bs
  defines "r \<equiv> getBrandMentionResponseRates_v1 name bs"
  shows "sorted_wrt (\<lambda>x y. responseRate y \<le> responseRate x) r"
    and "filter (\<lambda>x. \<not> isTestBrand x) r =
           take 2 (by_rate (map (rate_row_v1 name) (filter (\<lambda>b. brand b \<noteq> name) bs)))"
    and "filter isTestBrand r =
           take 1 (by_rate (map (rate_row_v1 name) (filter (\<lambda>b. brand b = name) bs)))"
proof -
  define sorted_rows where "sorted_rows = by_rate (map (rate_row_v1 name) bs)"
  define T where "T = take 2 (filter (\<lambda>x. \<not> isTestBrand x) sorted_rows)"
  define S where "S = take 1 (filter isTestBrand sorted_rows)"
  have r: "r = by_rate (T @ S)"
    unfolding r_def getBrandMentionResponseRates_v1_def Let_def T_def S_def sorted_rows_def by_rate_def
    by (simp add: find_as_filter rate_row_v1_def [abs_def] split: list.splits)
  show "sorted_wrt (\<lambda>x y. responseRate y \<le> responseRate x) r"
    unfolding r by (rule by_rate_sorted)
  have f1: "T = take 2 (by_rate (map (rate_row_v1 name) (filter (\<lambda>b. brand b \<noteq> name) bs)))"
    unfolding T_def sorted_rows_def by_rate_filter
    by (simp add: filter_map o_def rate_row_v1_def)
  have f2: "S = take 1 (by_rate (map (rate_row_v1 name) (filter (\<lambda>b. brand b = name) bs)))"
    unfolding S_def sorted_rows_def by_rate_filter
    by (simp add: filter_map o_def rate_row_v1_def)
  have s1: "sorted_wrt (\<lambda>x y. responseRate y \<le> responseRate x) T"
    unfolding f1 by (intro sorted_wrt_take by_rate_sorted)
  have s2: "sorted_wrt (\<lambda>x y. responseRate y \<le> responseRate x) S"
    unfolding f2 by (intro sorted_wrt_take by_rate_sorted)
  have t1: "filter (\<lambda>x. \<not> isTestBrand x) T = T" "filter isTestBrand T = []"
    unfolding T_def by (auto simp: filter_id_conv filter_empty_conv dest!: in_set_takeD)
  have t2: "filter (\<lambda>x. \<not> isTestBrand x) S = []" "filter isTestBrand S = S"
    unfolding S_def by (auto simp: filter_id_conv filter_empty_conv dest!: in_set_takeD)
  have "filter (\<lambda>x. \<not> isTestBrand x) r = by_rate T"
    unfolding r by_rate_filter by (simp add: t1 t2)
  then show "filter (\<lambda>x. \<not> isTestBrand x) r =
           take 2 (by_rate (map (rate_row_v1 name) (filter (\<lambda>b. brand b \<noteq> name) bs)))"
    using by_rate_idem [OF s1] f1 by simp
  have "filter isTestBrand r = by_rate S"
    unfolding r by_rate_filter by (simp add: t1 t2)
  then show "filter isTestBrand r =
           take 1 (by_rate (map (rate_row_v1 name) (filter (\<lambda>b. brand b = name) bs)))"
    using by_rate_idem [OF s2] f2 by simp
qed

lemma responseRates_v2_parts:
  "getBrandMentionResponseRates_v2 name bs =
     take 2 (by_rate (map (rate_row_v2 name) (filter (\<lambda>b. brand b \<noteq> name) bs))) @
     take 1 (by_rate (map (rate_row_v2 name) (filter (\<lambda>b. brand b = name) bs)))"
proof -
  let ?sorted = "by_rate (map (rate_row_v2 name) bs)"
  have f1: "filter (\<lambda>x. \<not> isTestBrand x) ?sorted =
      by_rate (map (rate_row_v2 name) (filter (\<lambda>b. brand b \<noteq> name) bs))"
    by (simp add: by_rate_def filter_Array_sort_desc filter_map o_def rate_row_v2_def)
  have f2: "filter isTestBrand ?sorted =
      by_rate (map (rate_row_v2 name) (filter (\<lambda>b. brand b = name) bs))"
    by (simp add: by_rate_def filter_Array_sort_desc filter_map o_def rate_row_v2_def)
  have "getBrandMentionResponseRates_v2 name bs =
      take 2 (filter (\<lambda>x. \<not> isTestBrand x) ?sorted) @ take 1 (filter isTestBrand ?sorted)"
    unfolding getBrandMentionResponseRates_v2_def Let_def by_rate_def
    by (simp add: find_as_filter rate_row_v2_def [abs_def] split: list.splits)
  then show ?thesis by (simp only: f1 f2)
qed

text \<open>
  C3, as stated, fails on both declarations. The first does not cap the rate: with the
  test brand T (90) and the competitors A (150) and B (40) the rates are 150, 90, 40. The
  second does not sort the rows it returns: with T (90), A (50), B (40) the rates come
  out as 50, 40, 90.
\<close>

theorem responseRates_counterexample:
  "map responseRate (getBrandMentionResponseRates_v1 ''T''
     [example_brand ''T'' 0 90, example_brand ''A'' 0 150, example_brand ''B'' 0 40]) = [150, 90, 40] \<and>
   map responseRate (getBrandMentionResponseRates_v2 ''T''
     [example_brand ''T'' 0 90, example_brand ''A'' 0 50, example_brand ''B'' 0 40]) = [50, 40, 90]"
  by (simp add: getBrandMentionResponseRates_v1_def getBrandMentionResponseRates_v2_def
      example_brand_def Array_sort_def Let_def)

text \<open>
  C3, amended. Both declarations return the rows of the two competitors with the highest
  rates (the entries that do not carry the name of the test brand, in descending order,
  ties in their original order) and the row of the test brand, when there is one. In the
  first declaration the rate of a row is the mention score as it is, not capped, and the
  returned rows are sorted by the rate descending. In the second declaration the rate of
  a row is the mention score capped at 100, so every rate is at most 100; the two
  competitors come in descending order and the row of the test brand follows them.
\<close>

theorem responseRates_by_declaration:
  "sorted_wrt (\<lambda>x y. responseRate y \<le> responseRate x) (getBrandMentionResponseRates_v1 name bs) \<and>
   filter (\<lambda>x. \<not> isTestBrand x) (getBrandMentionResponseRates_v1 name bs) =
     take 2 (by_rate (map (rate_row_v1 name) (filter (\<lambda>b. brand b \<noteq> name) bs))) \<and>
   filter isTestBrand (getBrandMentionResponseRates_v1 name bs) =
     take 1 (by_rate (map (rate_row_v1 name) (filter (\<lambda>b. brand b = name) bs))) \<and>
   getBrandMentionResponseRates_v2 name bs =
     take 2 (by_rate (map (rate_row_v2 name) (filter (\<lambda>b. brand b \<noteq> name) bs))) @
     take 1 (by_rate (map (rate_row_v2 name) (filter (\<lambda>b. brand b = name) bs))) \<and>
   (\<forall>r\<in>set (getBrandMentionResponseRates_v2 name bs). responseRate r \<le> 100)"
proof -
  have "\<forall>r\<in>set (getBrandMentionResponseRates_v2 name bs). responseRate r \<le> 100"
    unfolding responseRates_v2_parts
    by (auto simp: by_rate_def set_Array_sort rate_row_v2_def dest!: in_set_takeD)
  then show ?thesis
    using responseRates_v1_parts [of name bs] responseRates_v2_parts [of name bs] by simp
qed

theorem responseRates_by_declaration_witness:
  "map rr_brand (getBrandMentionResponseRates_v1 ''T''
     [example_brand ''T'' 0 90, example_brand ''A'' 0 150, example_brand ''B'' 0 40,
      example_brand ''C'' 0 30]) = [''A'', ''T'', ''B''] \<and>
   getBrandMentionResponseRates_v2 ''T''
     [example_brand ''T'' 0 90, example_brand ''A'' 0 150, example_brand ''B'' 0 40,
      example_brand ''C'' 0 30] =
     [rate_row_v2 ''T'' (example_brand ''A'' 0 150), rate_row_v2 ''T'' (example_brand ''B'' 0 40),
      rate_row_v2 ''T'' (example_brand ''T'' 0 90)] \<and>
   responseRate (rate_row_v2 ''T'' (example_brand ''A'' 0 150)) = 100"
proof -
  have "map rr_brand (getBrandMentionResponseRates_v1 ''T''
     [example_brand ''T'' 0 90, example_brand ''A'' 0 150, example_brand ''B'' 0 40,
      example_brand ''C'' 0 30]) = [''A'', ''T'', ''B'']"
    by (simp add: getBrandMentionResponseRates_v1_def example_brand_def Array_sort_def Let_def)
  then show ?thesis
    using responseRates_by_declaration [of "''T''"
        "[example_brand ''T'' 0 90, example_brand ''A'' 0 150, example_brand ''B'' 0 40,
          example_brand ''C'' 0 30]"]
    by (simp add: by_rate_def Array_sort_def rate_row_v2_def example_brand_def)
qed

section \<open>The brand mention score\<close>

lemma fold_sum: "fold (\<lambda>count sum. sum + count) xs (a::int) = a + sum_list xs"
  by (induction xs arbitrary: a) simp_all

lemma Math_min_in_range: "in_percent_range p \<Longrightarrow> Math_min p 100 = p"
  by (cases p) (simp_all add: in_percent_range_def)

lemma brandMentionScore_js_percent:
  "0 < t \<Longrightarrow> calculateBrandMentionScore (Some entries) t =
     Math_min (js_percent (of_int (sum_list (map snd entries))) (of_int t)) 100"
  by (simp add: calculateBrandMentionScore_def js_percent_def fold_sum)

text \<open>
  C4, as stated, fails at the same kind of tie: for the breakdown \<open>{k1: 23}\<close> and 40
  prompts the exact value is \<open>min(round(57.5), 100) = 58\<close>, the code returns 57.
\<close>

theorem calculateBrandMentionScore_tie_counterexample:
  "calculateBrandMentionScore (Some [(''k1'', 23)]) 40 = Fin 57 \<and>
   min (half_up (100 * 23 / 40)) 100 = 58"
proof -
  have "calculateBrandMentionScore (Some [(''k1'', 23)]) 40 = Fin 57"
    using js_percent_23_40 by (simp add: brandMentionScore_js_percent)
  moreover have "min (half_up (100 * 23 / 40)) 100 = 58"
    by (simp only: half_up_23_40)
  ultimately show ?thesis by (rule conjI)
qed

text \<open>
  C4, amended. \<open>calculateBrandMentionScore\<close> returns 0 for a null breakdown and for a total
  of prompts that is not positive. For a positive total and counts that are not negative,
  with \<open>s\<close> the sum of the counts, the result is an integer from 0 to 100, and it is 100
  when \<open>s\<close> reaches the total. For a total up to \<open>2^44\<close> and \<open>s\<close> below it, the result is the
  exact percentage \<open>100 s / total\<close> rounded half up, except that where the exact
  percentage lies exactly halfway between two integers it is either that or the integer
  below. \<open>{k1: 3, k2: 2}\<close> with 10 prompts gives 50 and \<open>{k1: 20}\<close> with 5 prompts gives 100.
\<close>

theorem calculateBrandMentionScore_rounded:
  "calculateBrandMentionScore None t = Fin 0 \<and>
   (t \<le> 0 \<longrightarrow> calculateBrandMentionScore b t = Fin 0) \<and>
   (0 < t \<and> (\<forall>e\<in>set entries. 0 \<le> snd e) \<longrightarrow>
      in_percent_range (calculateBrandMentionScore (Some entries) t) \<and>
      (t \<le> sum_list (map snd entries) \<longrightarrow> calculateBrandMentionScore (Some entries) t = Fin 100) \<and>
      (t \<le> 2 ^ 44 \<and> sum_list (map snd entries) \<le> t \<longrightarrow>
         rounded_percent (calculateBrandMentionScore (Some entries) t) (sum_list (map snd entries)) t)) \<and>
   calculateBrandMentionScore (Some [(''k1'', 3), (''k2'', 2)]) 10 = Fin 50 \<and>
   calculateBrandMentionScore (Some [(''k1'', 20)]) 5 = Fin 100"
proof -
  have none: "calculateBrandMentionScore None t = Fin 0"
    by (simp add: calculateBrandMentionScore_def)
  have le0: "t \<le> 0 \<longrightarrow> calculateBrandMentionScore b t = Fin 0"
    by (simp add: calculateBrandMentionScore_def split: option.splits)
  have whole: "calculateBrandMentionScore (Some es) u = Fin 100"
    if "0 < u" "u \<le> sum_list (map snd es)" for es u
  proof -
    have "0 < rat_of_int u" "rat_of_int u \<le> rat_of_int (sum_list (map snd es))"
      using that by simp_all
    from js_percent_whole [OF this] show ?thesis
      using that(1) by (auto simp: brandMentionScore_js_percent)
  qed
  have main: "in_percent_range (calculateBrandMentionScore (Some entries) t) \<and>
      (t \<le> sum_list (map snd entries) \<longrightarrow> calculateBrandMentionScore (Some entries) t = Fin 100) \<and>
      (t \<le> 2 ^ 44 \<and> sum_list (map snd entries) \<le> t \<longrightarrow>
         rounded_percent (calculateBrandMentionScore (Some entries) t) (sum_list (map snd entries)) t)"
    if t: "0 < t" and nn: "\<forall>e\<in>set entries. 0 \<le> snd e"
  proof -
    define s where "s = sum_list (map snd entries)"
    have s: "0 \<le> s" unfolding s_def using nn by (intro sum_list_nonneg) auto
    show ?thesis
    proof (cases "s \<le> t")
      case True
      have "0 \<le> rat_of_int s" "rat_of_int s \<le> rat_of_int t" "0 < rat_of_int t"
        using s True t by simp_all
      then have r: "in_percent_range (js_percent (of_int s) (of_int t))"
        by (rule js_percent_in_range)
      then have eq: "calculateBrandMentionScore (Some entries) t = js_percent (of_int s) (of_int t)"
        using t by (simp add: brandMentionScore_js_percent s_def Math_min_in_range)
      have "rounded_percent (js_percent (of_int s) (of_int t)) s t" if "t \<le> 2 ^ 44"
        by (rule js_percent_rounded [OF s True t that])
      then show ?thesis using r eq whole [OF t, of entries] unfolding s_def by simp
    next
      case False
      then have "calculateBrandMentionScore (Some entries) t = Fin 100"
        using whole [OF t, of entries] by (simp add: s_def)
      then show ?thesis using False by (simp add: in_percent_range_def s_def)
    qed
  qed
  have e1: "calculateBrandMentionScore (Some [(''k1'', 3), (''k2'', 2)]) 10 = Fin 50"
    using js_percent_5_10 by (simp add: brandMentionScore_js_percent)
  have e2: "calculateBrandMentionScore (Some [(''k1'', 20)]) 5 = Fin 100"
    by (rule whole) simp_all
  show ?thesis using none le0 main e1 e2 by blast
qed

theorem calculateBrandMentionScore_rounded_witness:
  "calculateBrandMentionScore None 10 = Fin 0 \<and>
   calculateBrandMentionScore (Some [(''k1'', 3)]) 0 = Fin 0 \<and>
   rounded_percent (calculateBrandMentionScore (Some [(''k1'', 1), (''k2'', 2)]) 8) 3 8 \<and>
   in_percent_range (calculateBrandMentionScore (Some [(''k1'', 1), (''k2'', 2)]) 8) \<and>
   calculateBrandMentionScore (Some [(''k1'', 20)]) 5 = Fin 100"
  using calculateBrandMentionScore_rounded [of 10 "Some [(''k1'', 3)]" "[(''k1'', 1), (''k2'', 2)]"]
    calculateBrandMentionScore_rounded [of 0 "Some [(''k1'', 3)]" "[]"]
    calculateBrandMentionScore_rounded [of 8 "None" "[(''k1'', 1), (''k2'', 2)]"]
  by simp

section \<open>The tier of a percentile\<close>

text \<open>
  C5. For every finite percentile \<open>p\<close> the tier is High exactly when \<open>p \<ge> 70\<close>, Medium
  exactly when \<open>40 \<le> p < 70\<close> and Low exactly when \<open>p < 40\<close>; whatever the number (also an
  infinity or NaN) the result is one of the three names; the four boundary values 70,
  69, 40 and 39 give High, Medium, Medium and Low.
\<close>

theorem getTierFromPercentile_thresholds:
  "(getTierFromPercentile (Fin p) = ''High'' \<longleftrightarrow> 70 \<le> p) \<and>
   (getTierFromPercentile (Fin p) = ''Medium'' \<longleftrightarrow> 40 \<le> p \<and> p < 70) \<and>
   (getTierFromPercentile (Fin p) = ''Low'' \<longleftrightarrow> p < 40) \<and>
   getTierFromPercentile x \<in> {''High'', ''Medium'', ''Low''} \<and>
   getTierFromPercentile (Fin 70) = ''High'' \<and>
   getTierFromPercentile (Fin 69) = ''Medium'' \<and>
   getTierFromPercentile (Fin 40) = ''Medium'' \<and>
   getTierFromPercentile (Fin 39) = ''Low''"
  by (auto simp: getTierFromPercentile_def)

section \<open>The percentile rank of a value\<close>

text \<open>
  C6, as stated, fails where the exact percentage lies halfway between two integers.
  With 23 of 40 members below the value the exact percentage is 57.5, which rounds to
  58. The code divides first: \<open>23 / 40\<close> is not a binary fraction, the quotient is the
  double 0.57499999999999995559 (\<open>dbl_23_40\<close>), and its product with 100 is the double
  57.49999999999999289 (\<open>js_mul_23_40\<close>), which \<^verbatim>\<open>Math.round\<close> takes to 57.
\<close>

theorem calculatePercentile_tie_counterexample:
  "length (filter (\<lambda>m. m < 5) example_population) = 23 \<and> length example_population = 40 \<and>
   calculatePercentile 5 example_population = Fin 57 \<and> half_up (100 * 23 / 40) = 58"
proof -
  have "calculatePercentile 5 example_population = Fin 57"
    using js_percent_23_40 by (simp add: calculatePercentile_js_percent example_population_counts)
  then show ?thesis
    by (intro conjI example_population_counts half_up_23_40)
qed

text \<open>
  C6, amended. For a non-empty population (an array has fewer than \<open>2^32\<close> elements, the
  proof needs no more than \<open>2^44\<close>) \<open>calculatePercentile\<close> is
  \<^verbatim>\<open>Math.round((c / n) * 100)\<close> in double arithmetic, where \<open>c\<close> counts the members strictly
  less than the value (a member equal to the value is not counted) and \<open>n\<close> is the size of
  the population. The result is an integer from 0 to 100. It is the exact percentage
  \<open>100 c / n\<close> rounded half up, except that where \<open>100 c / n\<close> lies exactly halfway between
  two integers it is either that or the integer below. It is 100 when the value exceeds
  every member and 0 when no member is below the value.
\<close>

theorem calculatePercentile_rounded:
  assumes "pop \<noteq> []" and "length pop \<le> 2 ^ 44"
  shows "rounded_percent (calculatePercentile v pop)
           (int (length (filter (\<lambda>m. m < v) pop))) (int (length pop)) \<and>
         in_percent_range (calculatePercentile v pop) \<and>
         ((\<forall>m\<in>set pop. m < v) \<longrightarrow> calculatePercentile v pop = Fin 100) \<and>
         ((\<forall>m\<in>set pop. \<not> m < v) \<longrightarrow> calculatePercentile v pop = Fin 0)"
proof -
  define c where "c = int (length (filter (\<lambda>m. m < v) pop))"
  define n where "n = int (length pop)"
  have cn: "0 \<le> c" "c \<le> n" "0 < n" using assms(1) by (simp_all add: c_def n_def)
  have "int (length pop) \<le> int (2 ^ 44)" using assms(2) by (simp only: of_nat_le_iff)
  then have n44: "n \<le> 2 ^ 44" by (simp add: n_def)
  have p: "calculatePercentile v pop = js_percent (of_int c) (of_int n)"
    by (simp add: calculatePercentile_js_percent c_def n_def)
  have "(\<forall>m\<in>set pop. m < v) \<longrightarrow> calculatePercentile v pop = Fin 100"
  proof
    assume "\<forall>m\<in>set pop. m < v"
    then have "filter (\<lambda>m. m < v) pop = pop" by (simp add: filter_id_conv)
    then show "calculatePercentile v pop = Fin 100"
      using assms(1) by (simp add: calculatePercentile_js_percent js_percent_all)
  qed
  moreover have "(\<forall>m\<in>set pop. \<not> m < v) \<longrightarrow> calculatePercentile v pop = Fin 0"
  proof
    assume "\<forall>m\<in>set pop. \<not> m < v"
    then have "filter (\<lambda>m. m < v) pop = []" by (simp add: filter_empty_conv)
    then show "calculatePercentile v pop = Fin 0"
      using assms(1) by (simp add: calculatePercentile_js_percent js_percent_none)
  qed
  moreover have "rounded_percent (calculatePercentile v pop) c n"
    "in_percent_range (calculatePercentile v pop)"
    unfolding p by (rule js_percent_rounded [OF cn n44])+
  ultimately show ?thesis unfolding c_def n_def by blast
qed

theorem calculatePercentile_rounded_witness:
  "rounded_percent (calculatePercentile 20 [10, 20, 20, 30]) 1 4 \<and>
   in_percent_range (calculatePercentile 20 [10, 20, 20, 30]) \<and>
   calculatePercentile 40 [10, 20, 20, 30] = Fin 100 \<and>
   calculatePercentile 10 [10, 20, 20, 30] = Fin 0"
proof -
  have h: "[10, 20, 20, 30 :: rat] \<noteq> []" "length [10, 20, 20, 30 :: rat] \<le> 2 ^ 44" by simp_all
  show ?thesis
    using calculatePercentile_rounded [OF h, of 20] calculatePercentile_rounded [OF h, of 40]
      calculatePercentile_rounded [OF h, of 10]
    by simp
qed

section \<open>The ranking is a stable descending sort of a copy\<close>

lemma findIndex_from_append:
  "findIndex_from P (us @ vs) k =
     (if \<exists>u\<in>set us. P u then findIndex_from P us k else findIndex_from P vs (k + int (length us)))"
  by (induction us arbitrary: k) (auto simp add: algebra_simps)

lemma findIndex_from_skip:
  "\<forall>u\<in>set us. \<not> P u \<Longrightarrow> P v \<Longrightarrow> findIndex_from P (us @ v # vs) k = k + int (length us)"
  by (simp add: findIndex_from_append)

lemma sorted_three_way:
  "sorted (map key xs) \<Longrightarrow>
   xs = filter (\<lambda>x. key x < (k::rat)) xs @ filter (\<lambda>x. key x = k) xs @ filter (\<lambda>x. k < key x) xs"
proof (induction xs)
  case Nil
  then show ?case by simp
next
  case (Cons x xs)
  then have le: "\<forall>y\<in>set xs. key x \<le> key y" and s: "sorted (map key xs)" by auto
  have ih: "xs = filter (\<lambda>x. key x < k) xs @ filter (\<lambda>x. key x = k) xs @ filter (\<lambda>x. k < key x) xs"
    using Cons.IH s by blast
  consider "key x < k" | "key x = k" | "k < key x" by linarith
  then show ?case
  proof cases
    case 1
    then show ?thesis using ih by simp
  next
    case 2
    then have "filter (\<lambda>x. key x < k) xs = []" using le by (auto simp add: filter_empty_conv)
    then show ?thesis using 2 ih by simp
  next
    case 3
    then have "filter (\<lambda>x. key x < k) xs = []" "filter (\<lambda>x. key x = k) xs = []"
      using le by (auto simp add: filter_empty_conv)
    then show ?thesis using 3 ih by simp
  qed
qed

lemma findIndex_stable_ranking:
  assumes i: "i < length bs"
    and only: "\<forall>j<length bs. P (bs ! j) = (j = i)"
  shows "findIndex P (Array_sort (\<lambda>x y. sel y - sel x) bs) = int (ranks_before sel bs i)"
proof -
  define key where "key = (\<lambda>b. - sel b)"
  define S where "S = sort_key key bs"
  define k where "k = key (bs ! i)"
  have S: "Array_sort (\<lambda>x y. sel y - sel x) bs = S"
    unfolding S_def key_def by (rule Array_sort_sort_key)
  have Pi: "P (bs ! i)" using only i by simp
  have Ponly: "x = bs ! i" if "x \<in> set bs" "P x" for x
    using that only by (metis in_set_conv_nth)
  have "sorted (map key S)" unfolding S_def by simp
  then have split: "S = filter (\<lambda>x. key x < k) S @ filter (\<lambda>x. key x = k) S @ filter (\<lambda>x. k < key x) S"
    by (rule sorted_three_way)
  have setS: "set S = set bs" unfolding S_def by simp
  have A: "\<forall>u\<in>set (filter (\<lambda>x. key x < k) S). \<not> P u"
    using Ponly setS k_def by auto
  have E: "filter (\<lambda>x. key x = k) S = filter (\<lambda>x. key x = k) bs"
    unfolding S_def by (rule sort_key_stable)
  have bs: "bs = take i bs @ bs ! i # drop (Suc i) bs"
    using i by (rule id_take_nth_drop)
  have "filter (\<lambda>x. key x = k) bs =
      filter (\<lambda>x. key x = k) (take i bs) @ bs ! i # filter (\<lambda>x. key x = k) (drop (Suc i) bs)"
    by (subst bs) (simp add: k_def)
  then have E2: "filter (\<lambda>x. key x = k) S =
      filter (\<lambda>x. key x = k) (take i bs) @ bs ! i # filter (\<lambda>x. key x = k) (drop (Suc i) bs)"
    using E by simp
  have nP: "\<forall>u\<in>set (take i bs). \<not> P u"
  proof
    fix u assume "u \<in> set (take i bs)"
    then obtain j where j: "j < length (take i bs)" "u = take i bs ! j"
      by (metis in_set_conv_nth)
    then have "j < i" "j < length bs" "u = bs ! j" using i by auto
    then show "\<not> P u" using only by auto
  qed
  define pre where "pre = filter (\<lambda>x. key x < k) S @ filter (\<lambda>x. key x = k) (take i bs)"
  define post where "post = filter (\<lambda>x. key x = k) (drop (Suc i) bs) @ filter (\<lambda>x. k < key x) S"
  have B: "\<forall>u\<in>set pre. \<not> P u"
    using A nP unfolding pre_def by auto
  have "S = filter (\<lambda>x. key x < k) S @
      (filter (\<lambda>x. key x = k) (take i bs) @ bs ! i # filter (\<lambda>x. key x = k) (drop (Suc i) bs)) @
      filter (\<lambda>x. k < key x) S"
    using split unfolding E2 .
  then have eq: "S = pre @ bs ! i # post"
    unfolding pre_def post_def by simp
  have "findIndex_from P (pre @ bs ! i # post) 0 = 0 + int (length pre)"
    using B Pi by (rule findIndex_from_skip)
  then have "findIndex P S = int (length pre)"
    unfolding findIndex_def using eq by simp
  then have "findIndex P S =
      int (length (filter (\<lambda>x. key x < k) S) + length (filter (\<lambda>x. key x = k) (take i bs)))"
    unfolding pre_def by simp
  also have "length (filter (\<lambda>x. key x < k) S) = length (filter (\<lambda>x. key x < k) bs)"
    unfolding S_def by (metis filter_sort length_sort)
  finally show ?thesis
    unfolding S by (simp add: ranks_before_def key_def k_def)
qed

lemma only_by_distinct:
  assumes "distinct (map f bs)" "i < length bs"
  shows "\<forall>j<length bs. (f (bs ! j) = f (bs ! i)) = (j = i)"
  using assms by (auto simp add: distinct_conv_nth)

lemma getMentionsPosition_st_pure:
  assumes "a < length h"
  shows "getMentionsPosition_st name h a =
     (h @ [Array_sort (\<lambda>x y. mention_score y - mention_score x) (h ! a)], getMentionsPosition name (h ! a))"
  using assms
  by (simp add: getMentionsPosition_st_def getMentionsPosition_def sorted_copy_def spread_def
      sort_in_place_def Let_def nth_append)

lemma getAIVisibilityMetrics_v2_st_pure:
  assumes "a < length h"
  shows "getAIVisibilityMetrics_v2_st name h a llm =
     (h @ [Array_sort (\<lambda>x y. geo_score y - geo_score x) (h ! a)], getAIVisibilityMetrics_v2 name (h ! a) llm)"
  using assms
  by (simp add: getAIVisibilityMetrics_v2_st_def getAIVisibilityMetrics_v2_def sorted_copy_def spread_def
      sort_in_place_def Let_def nth_append)

lemma getMentionsPosition_rank:
  assumes "distinct (map brand bs)" "i < length bs"
  shows "mp_position (getMentionsPosition (brand (bs ! i)) bs) = 1 + int (ranks_before mention_score bs i)"
  using findIndex_stable_ranking [OF assms(2) only_by_distinct [OF assms], of mention_score]
  by (simp add: getMentionsPosition_def Let_def)

lemma getAIVisibilityMetrics_v2_rank:
  assumes "distinct (map brand bs)" "i < length bs"
  shows "brandPosition (getAIVisibilityMetrics_v2 (brand (bs ! i)) bs llm) = 1 + int (ranks_before geo_score bs i)"
  using findIndex_stable_ranking [OF assms(2) only_by_distinct [OF assms], of geo_score]
  by (simp add: getAIVisibilityMetrics_v2_def Let_def)

text \<open>
  C7. \<open>getMentionsPosition\<close> and the second declaration of \<open>getAIVisibilityMetrics\<close>,
  run on a store, leave every array of the store as it was and allocate one new array,
  the ranking \<^verbatim>\<open>[...brandInfoWithLogos].sort((a, b) => sel(b) - sel(a))\<close>; what they
  return is what the functions on lists return. The ranking is sorted by the score
  descending, is a permutation of the brands, and keeps the entries of an equal score in
  their original order. So, when the names are distinct, the position of the entry at
  index \<open>i\<close> is 1 plus the number of entries with a larger score plus the number of
  entries before index \<open>i\<close> with the same score. For Acme 80, Beta 50, Gamma 50 the
  position of Gamma by mention score is 3; for Gamma 50, Beta 50, Acme 80 it is 2.
\<close>

theorem competitorRanking_stable_descending:
  "(a < length h \<longrightarrow>
      getMentionsPosition_st name h a =
        (h @ [Array_sort (\<lambda>x y. mention_score y - mention_score x) (h ! a)],
         getMentionsPosition name (h ! a)) \<and>
      getAIVisibilityMetrics_v2_st name h a llm =
        (h @ [Array_sort (\<lambda>x y. geo_score y - geo_score x) (h ! a)],
         getAIVisibilityMetrics_v2 name (h ! a) llm)) \<and>
   sorted_wrt (\<lambda>x y. sel y \<le> sel x) (Array_sort (\<lambda>x y. sel y - sel x) bs) \<and>
   filter (\<lambda>b. sel b = k) (Array_sort (\<lambda>x y. sel y - sel x) bs) = filter (\<lambda>b. sel b = k) bs \<and>
   mset (Array_sort (\<lambda>x y. sel y - sel x) bs) = mset bs \<and>
   (distinct (map brand bs) \<and> i < length bs \<longrightarrow>
      mp_position (getMentionsPosition (brand (bs ! i)) bs) =
        1 + int (ranks_before mention_score bs i) \<and>
      brandPosition (getAIVisibilityMetrics_v2 (brand (bs ! i)) bs llm) =
        1 + int (ranks_before geo_score bs i)) \<and>
   mp_position (getMentionsPosition ''Gamma''
      [example_brand ''Acme'' 0 80, example_brand ''Beta'' 0 50, example_brand ''Gamma'' 0 50]) = 3 \<and>
   mp_position (getMentionsPosition ''Gamma''
      [example_brand ''Gamma'' 0 50, example_brand ''Beta'' 0 50, example_brand ''Acme'' 0 80]) = 2"
proof -
  have 1: "getMentionsPosition_st name h a =
        (h @ [Array_sort (\<lambda>x y. mention_score y - mention_score x) (h ! a)],
         getMentionsPosition name (h ! a)) \<and>
      getAIVisibilityMetrics_v2_st name h a llm =
        (h @ [Array_sort (\<lambda>x y. geo_score y - geo_score x) (h ! a)],
         getAIVisibilityMetrics_v2 name (h ! a) llm)" if "a < length h"
    using that by (simp add: getMentionsPosition_st_pure getAIVisibilityMetrics_v2_st_pure)
  have 2: "sorted_wrt (\<lambda>x y. sel y \<le> sel x) (Array_sort (\<lambda>x y. sel y - sel x) bs)"
    by (rule sorted_Array_sort_desc)
  have 3: "filter (\<lambda>b. sel b = k) (Array_sort (\<lambda>x y. sel y - sel x) bs) = filter (\<lambda>b. sel b = k) bs"
    by (rule stable_Array_sort_desc)
  have 4: "mset (Array_sort (\<lambda>x y. sel y - sel x) bs) = mset bs"
    by (rule mset_Array_sort_desc)
  have 5: "mp_position (getMentionsPosition (brand (bs ! i)) bs) =
        1 + int (ranks_before mention_score bs i) \<and>
      brandPosition (getAIVisibilityMetrics_v2 (brand (bs ! i)) bs llm) =
        1 + int (ranks_before geo_score bs i)" if "distinct (map brand bs) \<and> i < length bs"
    using that by (simp add: getMentionsPosition_rank getAIVisibilityMetrics_v2_rank)
  have 6: "mp_position (getMentionsPosition ''Gamma''
      [example_brand ''Acme'' 0 80, example_brand ''Beta'' 0 50, example_brand ''Gamma'' 0 50]) = 3"
    by (simp add: getMentionsPosition_def example_brand_def Array_sort_def findIndex_def Let_def)
  have 7: "mp_position (getMentionsPosition ''Gamma''
      [example_brand ''Gamma'' 0 50, example_brand ''Beta'' 0 50, example_brand ''Acme'' 0 80]) = 2"
    by (simp add: getMentionsPosition_def example_brand_def Array_sort_def findIndex_def Let_def)
  show ?thesis using 1 2 3 4 5 6 7 by blast
qed

theorem competitorRanking_stable_descending_witness:
  "(0::nat) < length [[example_brand ''Beta'' 0 50, example_brand ''Acme'' 0 80, example_brand ''Gamma'' 0 50]] \<and>
   distinct (map brand [example_brand ''Beta'' 0 50, example_brand ''Acme'' 0 80, example_brand ''Gamma'' 0 50]) \<and>
   (2::nat) < length [example_brand ''Beta'' 0 50, example_brand ''Acme'' 0 80, example_brand ''Gamma'' 0 50] \<and>
   fst (getMentionsPosition_st ''Gamma''
          [[example_brand ''Beta'' 0 50, example_brand ''Acme'' 0 80, example_brand ''Gamma'' 0 50]] 0) =
     [[example_brand ''Beta'' 0 50, example_brand ''Acme'' 0 80, example_brand ''Gamma'' 0 50],
      [example_brand ''Acme'' 0 80, example_brand ''Beta'' 0 50, example_brand ''Gamma'' 0 50]] \<and>
   mp_position (snd (getMentionsPosition_st ''Gamma''
          [[example_brand ''Beta'' 0 50, example_brand ''Acme'' 0 80, example_brand ''Gamma'' 0 50]] 0)) = 3 \<and>
   1 + int (ranks_before mention_score
          [example_brand ''Beta'' 0 50, example_brand ''Acme'' 0 80, example_brand ''Gamma'' 0 50] 2) = 3"
proof -
  let ?bs = "[example_brand ''Beta'' 0 50, example_brand ''Acme'' 0 80, example_brand ''Gamma'' 0 50]"
  have h: "(0::nat) < length [?bs]" by simp
  have d: "distinct (map brand ?bs) \<and> (2::nat) < length ?bs" by (simp add: example_brand_def)
  note th = competitorRanking_stable_descending [where a = 0 and h = "[?bs]" and name = "''Gamma''"
      and bs = ?bs and i = 2 and sel = mention_score and k = 50 and llm = "[]"]
  from th h have st: "getMentionsPosition_st ''Gamma'' [?bs] 0 =
      ([?bs] @ [Array_sort (\<lambda>x y. mention_score y - mention_score x) ([?bs] ! 0)],
       getMentionsPosition ''Gamma'' ([?bs] ! 0))"
    by blast
  from th d have r: "mp_position (getMentionsPosition (brand (?bs ! 2)) ?bs) =
      1 + int (ranks_before mention_score ?bs 2)"
    by blast
  have s: "Array_sort (\<lambda>x y. mention_score y - mention_score x) ?bs =
      [example_brand ''Acme'' 0 80, example_brand ''Beta'' 0 50, example_brand ''Gamma'' 0 50]"
    by (simp add: Array_sort_def example_brand_def)
  have f: "fst (getMentionsPosition_st ''Gamma'' [?bs] 0) =
      [?bs, [example_brand ''Acme'' 0 80, example_brand ''Beta'' 0 50, example_brand ''Gamma'' 0 50]]"
    using st s by simp
  have rb: "ranks_before mention_score ?bs 2 = 2"
    by (simp add: ranks_before_def example_brand_def)
  have "brand (?bs ! 2) = ''Gamma''" by (simp add: example_brand_def)
  then have p: "mp_position (snd (getMentionsPosition_st ''Gamma'' [?bs] 0)) = 3"
    using st r rb by simp
  show ?thesis using h d f p rb by simp
qed

section \<open>The top competitor is the first maximum\<close>

lemma fold_keeps_top:
  assumes step: "\<And>x cur. 0 \<le> tc_score cur \<Longrightarrow> step x cur = (if tc_score cur < f x then mk x else cur)"
    and "0 \<le> tc_score cur" and "\<forall>z\<in>set zs. f z \<le> tc_score cur"
  shows "fold step zs cur = cur"
  using assms(2,3) by (induction zs) (simp_all add: step)

lemma fold_score_below:
  assumes mk: "\<And>x. tc_score (mk x) = f x"
    and step: "\<And>x cur. 0 \<le> tc_score cur \<Longrightarrow> step x cur = (if tc_score cur < f x then mk x else cur)"
    and "0 \<le> tc_score cur" and "tc_score cur < m" and "\<forall>y\<in>set ys. f y < m"
  shows "0 \<le> tc_score (fold step ys cur) \<and> tc_score (fold step ys cur) < m"
  using assms(3,4,5)
proof (induction ys arbitrary: cur)
  case Nil
  then show ?case by simp
next
  case (Cons y ys)
  have "0 \<le> tc_score (step y cur) \<and> tc_score (step y cur) < m"
    using Cons.prems by (simp add: step mk)
  then show ?case using Cons by simp
qed

lemma fold_first_maximum:
  assumes mk: "\<And>x. tc_score (mk x) = f x"
    and step: "\<And>x cur. 0 \<le> tc_score cur \<Longrightarrow> step x cur = (if tc_score cur < f x then mk x else cur)"
    and b: "0 < f b" and ys: "\<forall>y\<in>set ys. f y < f b" and zs: "\<forall>z\<in>set zs. f z \<le> f b"
  shows "fold step (ys @ b # zs) no_competitor = mk b"
proof -
  have "0 \<le> tc_score (fold step ys no_competitor) \<and> tc_score (fold step ys no_competitor) < f b"
    by (rule fold_score_below [OF mk step]) (use b ys in \<open>simp_all add: no_competitor_def\<close>)
  then have "step b (fold step ys no_competitor) = mk b"
    by (simp add: step)
  moreover have "fold step zs (mk b) = mk b"
    by (rule fold_keeps_top [OF step]) (use b zs mk in simp_all)
  ultimately show ?thesis by simp
qed

lemma fold_no_maximum:
  assumes step: "\<And>x cur. 0 \<le> tc_score cur \<Longrightarrow> step x cur = (if tc_score cur < f x then mk x else cur)"
    and "\<forall>x\<in>set xs. f x \<le> 0"
  shows "fold step xs no_competitor = no_competitor"
  by (rule fold_keeps_top [OF step]) (use assms(2) in \<open>simp_all add: no_competitor_def\<close>)

lemma keyword_step:
  "0 \<le> tc_score cur \<Longrightarrow>
   (let score = keyword_score b k in
      if tc_score cur < score then \<lparr>tc_brand = brand b, tc_score = score, tc_logo = logo b\<rparr> else cur) =
   (if tc_score cur < keyword_score b k
    then \<lparr>tc_brand = brand b, tc_score = keyword_score b k, tc_logo = logo b\<rparr> else cur)"
  by (simp add: Let_def)

lemma source_step:
  "0 \<le> tc_score cur \<Longrightarrow>
   (case e of (name, data) \<Rightarrow> \<lambda>cur. case sm_count data of None \<Rightarrow> cur
      | Some c \<Rightarrow> if tc_score cur < c
                  then \<lparr>tc_brand = name, tc_score = c, tc_logo = getBrandLogo info name\<rparr> else cur) cur =
   (if tc_score cur < source_count e
    then \<lparr>tc_brand = fst e, tc_score = source_count e, tc_logo = getBrandLogo info (fst e)\<rparr> else cur)"
  by (auto simp: source_count_def or0_def split: option.splits prod.splits)

text \<open>
  C8. \<open>getTopCompetitorForKeyword\<close> and \<open>getTopCompetitorForSource\<close> return the empty
  record (empty brand, score 0, empty logo) when no entry has a score above 0; otherwise
  they return the first entry, in the order of the iteration, whose score is the maximum:
  every entry before it has a strictly smaller score, no entry after it has a larger one.
  The score is \<open>mention_breakdown[keywordId]\<close> with 0 for a missing key, and the count of
  the entry of the \<open>mentions\<close> object.
\<close>

theorem topCompetitor_first_maximum:
  "((\<forall>b\<in>set bs. keyword_score b k \<le> 0) \<longrightarrow>
      getTopCompetitorForKeyword bs k = \<lparr>tc_brand = [], tc_score = 0, tc_logo = []\<rparr>) \<and>
   (0 < keyword_score b k \<and> (\<forall>y\<in>set ys. keyword_score y k < keyword_score b k) \<and>
      (\<forall>z\<in>set zs. keyword_score z k \<le> keyword_score b k) \<longrightarrow>
      getTopCompetitorForKeyword (ys @ b # zs) k =
        \<lparr>tc_brand = brand b, tc_score = keyword_score b k, tc_logo = logo b\<rparr>) \<and>
   ((\<forall>e\<in>set ms. source_count e \<le> 0) \<longrightarrow>
      getTopCompetitorForSource info ms = \<lparr>tc_brand = [], tc_score = 0, tc_logo = []\<rparr>) \<and>
   (0 < source_count e \<and> (\<forall>y\<in>set pre. source_count y < source_count e) \<and>
      (\<forall>z\<in>set post. source_count z \<le> source_count e) \<longrightarrow>
      getTopCompetitorForSource info (pre @ e # post) =
        \<lparr>tc_brand = fst e, tc_score = source_count e, tc_logo = getBrandLogo info (fst e)\<rparr>)"
proof (intro conjI impI)
  assume "\<forall>b\<in>set bs. keyword_score b k \<le> 0"
  then show "getTopCompetitorForKeyword bs k = \<lparr>tc_brand = [], tc_score = 0, tc_logo = []\<rparr>"
    unfolding getTopCompetitorForKeyword_def no_competitor_def [symmetric]
    by (intro fold_no_maximum [where f = "\<lambda>b. keyword_score b k"
          and mk = "\<lambda>b. \<lparr>tc_brand = brand b, tc_score = keyword_score b k, tc_logo = logo b\<rparr>"]
        keyword_step)
next
  assume "0 < keyword_score b k \<and> (\<forall>y\<in>set ys. keyword_score y k < keyword_score b k) \<and>
      (\<forall>z\<in>set zs. keyword_score z k \<le> keyword_score b k)"
  then show "getTopCompetitorForKeyword (ys @ b # zs) k =
        \<lparr>tc_brand = brand b, tc_score = keyword_score b k, tc_logo = logo b\<rparr>"
    unfolding getTopCompetitorForKeyword_def no_competitor_def [symmetric]
    by (intro fold_first_maximum [where f = "\<lambda>b. keyword_score b k"
          and mk = "\<lambda>b. \<lparr>tc_brand = brand b, tc_score = keyword_score b k, tc_logo = logo b\<rparr>"]
        keyword_step) simp_all
next
  assume "\<forall>e\<in>set ms. source_count e \<le> 0"
  then show "getTopCompetitorForSource info ms = \<lparr>tc_brand = [], tc_score = 0, tc_logo = []\<rparr>"
    unfolding getTopCompetitorForSource_def no_competitor_def [symmetric]
    by (intro fold_no_maximum [where f = source_count
          and mk = "\<lambda>e. \<lparr>tc_brand = fst e, tc_score = source_count e, tc_logo = getBrandLogo info (fst e)\<rparr>"]
        source_step)
next
  assume "0 < source_count e \<and> (\<forall>y\<in>set pre. source_count y < source_count e) \<and>
      (\<forall>z\<in>set post. source_count z \<le> source_count e)"
  then show "getTopCompetitorForSource info (pre @ e # post) =
        \<lparr>tc_brand = fst e, tc_score = source_count e, tc_logo = getBrandLogo info (fst e)\<rparr>"
    unfolding getTopCompetitorForSource_def no_competitor_def [symmetric]
    by (intro fold_first_maximum [where f = source_count
          and mk = "\<lambda>e. \<lparr>tc_brand = fst e, tc_score = source_count e, tc_logo = getBrandLogo info (fst e)\<rparr>"]
        source_step) simp_all
qed

theorem topCompetitor_first_maximum_witness:
  "getTopCompetitorForKeyword
     [example_keyword_brand ''A'' 3, example_keyword_brand ''B'' 5, example_keyword_brand ''C'' 5] ''k1'' =
     \<lparr>tc_brand = ''B'', tc_score = 5, tc_logo = ''B.png''\<rparr> \<and>
   getTopCompetitorForKeyword [example_brand ''A'' 0 0, example_keyword_brand ''B'' 0] ''k1'' =
     \<lparr>tc_brand = [], tc_score = 0, tc_logo = []\<rparr> \<and>
   getTopCompetitorForSource [example_keyword_brand ''B'' 0]
     [(''A'', example_mention (Some 2)), (''B'', example_mention (Some 7)), (''C'', example_mention (Some 7))] =
     \<lparr>tc_brand = ''B'', tc_score = 7, tc_logo = ''B.png''\<rparr> \<and>
   getTopCompetitorForSource [example_keyword_brand ''B'' 0]
     [(''A'', example_mention None), (''B'', example_mention (Some 0))] =
     \<lparr>tc_brand = [], tc_score = 0, tc_logo = []\<rparr>"
  using topCompetitor_first_maximum
    [where bs = "[example_brand ''A'' 0 0, example_keyword_brand ''B'' 0]" and k = "''k1''"
       and ys = "[example_keyword_brand ''A'' 3]" and b = "example_keyword_brand ''B'' 5"
       and zs = "[example_keyword_brand ''C'' 5]"
       and info = "[example_keyword_brand ''B'' 0]"
       and ms = "[(''A'', example_mention None), (''B'', example_mention (Some 0))]"
       and pre = "[(''A'', example_mention (Some 2))]" and e = "(''B'', example_mention (Some 7))"
       and post = "[(''C'', example_mention (Some 7))]"]
  by (simp add: example_keyword_brand_def example_brand_def example_mention_def keyword_score_def
      source_count_def or0_def getBrandLogo_def)

section \<open>The position breakdown from the average ranks\<close>

text \<open>
  C9, as stated, fails in two ways. An entry with 5 queries and the average rank 0 has a
  rank of at most 1, yet it is not counted in the top bucket: the code sorts an entry
  into a bucket only when its rank is above 0, so the top percentage is 0. And the
  percentage is not the exact one at a tie: with 23 queries at rank 1 and 17 at rank 5
  the top percentage is 57, where \<open>round(100 * 23 / 40)\<close> is 58.
\<close>

theorem positionBreakdown_counterexample:
  "avg_rank_of (the (example_llm 5 0)) \<le> 1 \<and>
   topPosition (positionBreakdown_v2 [example_llm 5 0]) = Fin 0 \<and>
   topPosition (positionBreakdown_v2 [example_llm 23 1, example_llm 17 5]) = Fin 57 \<and>
   half_up (100 * 23 / 40) = 58"
proof -
  have "avg_rank_of (the (example_llm 5 0)) \<le> 1"
    by (simp add: example_llm_def avg_rank_of_def or0_def)
  moreover have "topPosition (positionBreakdown_v2 [example_llm 5 0]) = Fin 0"
    by (simp add: positionBreakdown_v2_fields example_llm_def avg_rank_of_def or0_def
        percent_of_js_percent js_percent_none)
  moreover have "topPosition (positionBreakdown_v2 [example_llm 23 1, example_llm 17 5]) = Fin 57"
    using js_percent_23_40
    by (simp add: positionBreakdown_v2_fields example_llm_def avg_rank_of_def or0_def
        percent_of_js_percent)
  ultimately show ?thesis by (intro conjI half_up_23_40)
qed

text \<open>
  C9, amended. Over all entries of \<open>llm_wise_data\<close>, the queries-with-brand of an entry
  are added to the total, and to the top bucket when its average rank \<open>r\<close> (the average
  brand rank, else the average rank, else 0) satisfies \<open>0 < r \<le> 1\<close>, to the mid bucket
  when \<open>1 < r \<le> 4\<close>, to the low bucket when \<open>4 < r\<close>, and to no bucket when \<open>r \<le> 0\<close>.
  The percentage of a bucket is \<^verbatim>\<open>Math.round((bucket / divisor) * 100)\<close> in double
  arithmetic, the divisor being the total, or 1 when the total is 0; it is never NaN.
  With counts that are not negative, the three percentages are 0 when the total is 0,
  and for a positive total (up to \<open>2^44\<close>) each is the exact percentage
  \<open>100 bucket / total\<close> rounded half up, except that where the exact percentage lies
  exactly halfway between two integers it is either that or the integer below. The first
  declaration takes the percentages of the t1, t2 and t3 counters of gemini and openai
  instead, with 0 when the counters add up to 0; they are never NaN either.
\<close>

theorem positionBreakdown_buckets:
  "totalQueriesWithBrand (count_all llm) = bucket_sum (\<lambda>r. True) llm \<and>
   topPositionCount (count_all llm) = bucket_sum (\<lambda>r. 0 < r \<and> r \<le> 1) llm \<and>
   midPositionCount (count_all llm) = bucket_sum (\<lambda>r. 1 < r \<and> r \<le> 4) llm \<and>
   lowPositionCount (count_all llm) = bucket_sum (\<lambda>r. 4 < r) llm \<and>
   topPosition (positionBreakdown_v2 llm) \<noteq> NaN \<and>
   midPosition (positionBreakdown_v2 llm) \<noteq> NaN \<and>
   lowPosition (positionBreakdown_v2 llm) \<noteq> NaN \<and>
   topPosition (positionBreakdown (getAIVisibilityMetrics_v1 an)) \<noteq> NaN \<and>
   midPosition (positionBreakdown (getAIVisibilityMetrics_v1 an)) \<noteq> NaN \<and>
   lowPosition (positionBreakdown (getAIVisibilityMetrics_v1 an)) \<noteq> NaN \<and>
   (nonneg_queries llm \<and> bucket_sum (\<lambda>r. True) llm = 0 \<longrightarrow>
      positionBreakdown_v2 llm = \<lparr>topPosition = Fin 0, midPosition = Fin 0, lowPosition = Fin 0\<rparr>) \<and>
   (nonneg_queries llm \<and> 0 < bucket_sum (\<lambda>r. True) llm \<and> bucket_sum (\<lambda>r. True) llm \<le> 2 ^ 44 \<longrightarrow>
      rounded_percent (topPosition (positionBreakdown_v2 llm))
        (bucket_sum (\<lambda>r. 0 < r \<and> r \<le> 1) llm) (bucket_sum (\<lambda>r. True) llm) \<and>
      rounded_percent (midPosition (positionBreakdown_v2 llm))
        (bucket_sum (\<lambda>r. 1 < r \<and> r \<le> 4) llm) (bucket_sum (\<lambda>r. True) llm) \<and>
      rounded_percent (lowPosition (positionBreakdown_v2 llm))
        (bucket_sum (\<lambda>r. 4 < r) llm) (bucket_sum (\<lambda>r. True) llm))"
proof -
  have "positionBreakdown_v2 llm = \<lparr>topPosition = Fin 0, midPosition = Fin 0, lowPosition = Fin 0\<rparr>"
    if "nonneg_queries llm" "bucket_sum (\<lambda>r. True) llm = 0"
    using bucket_percent(2) [OF that] positionBreakdown_v2_fields [of llm]
    by (cases "positionBreakdown_v2 llm") simp
  moreover have "rounded_percent (topPosition (positionBreakdown_v2 llm))
        (bucket_sum (\<lambda>r. 0 < r \<and> r \<le> 1) llm) (bucket_sum (\<lambda>r. True) llm)"
      "rounded_percent (midPosition (positionBreakdown_v2 llm))
        (bucket_sum (\<lambda>r. 1 < r \<and> r \<le> 4) llm) (bucket_sum (\<lambda>r. True) llm)"
      "rounded_percent (lowPosition (positionBreakdown_v2 llm))
        (bucket_sum (\<lambda>r. 4 < r) llm) (bucket_sum (\<lambda>r. True) llm)"
    if "nonneg_queries llm" "0 < bucket_sum (\<lambda>r. True) llm" "bucket_sum (\<lambda>r. True) llm \<le> 2 ^ 44"
    unfolding positionBreakdown_v2_fields by (rule bucket_percent(3) [OF that])+
  moreover have "topPosition (positionBreakdown (getAIVisibilityMetrics_v1 an)) \<noteq> NaN"
    "midPosition (positionBreakdown (getAIVisibilityMetrics_v1 an)) \<noteq> NaN"
    "lowPosition (positionBreakdown (getAIVisibilityMetrics_v1 an)) \<noteq> NaN"
    by (cases an; simp add: getAIVisibilityMetrics_v1_def Let_def percent_of_not_NaN)+
  ultimately show ?thesis
    using count_all_buckets [of llm]
    by (simp add: positionBreakdown_v2_fields percent_of_not_NaN)
qed

theorem positionBreakdown_buckets_witness:
  "totalQueriesWithBrand (count_all [example_llm 1 1, example_llm 2 3, example_llm 5 7, example_llm 2 0]) = 10 \<and>
   positionBreakdown_v2 [example_llm 0 1] = \<lparr>topPosition = Fin 0, midPosition = Fin 0, lowPosition = Fin 0\<rparr> \<and>
   rounded_percent (topPosition (positionBreakdown_v2 [example_llm 1 1, example_llm 2 3, example_llm 5 7, example_llm 2 0])) 1 10 \<and>
   rounded_percent (midPosition (positionBreakdown_v2 [example_llm 1 1, example_llm 2 3, example_llm 5 7, example_llm 2 0])) 2 10 \<and>
   rounded_percent (lowPosition (positionBreakdown_v2 [example_llm 1 1, example_llm 2 3, example_llm 5 7, example_llm 2 0])) 5 10"
  using positionBreakdown_buckets [of "[example_llm 1 1, example_llm 2 3, example_llm 5 7, example_llm 2 0]"]
    positionBreakdown_buckets [of "[example_llm 0 1]"]
  by (simp add: example_llm_def nonneg_queries_def avg_rank_of_def or0_def)

section \<open>A model without a rank\<close>

lemma bucket_sum_append:
  "bucket_sum band (xs @ ys) = bucket_sum band xs + bucket_sum band ys"
  by (induction band xs rule: bucket_sum.induct) simp_all

lemma bucket_sum_insert:
  "bucket_sum band (xs @ Some d # ys) =
     bucket_sum band (xs @ ys) + (if band (avg_rank_of d) then or0 (queries_with_brand d) else 0)"
  by (simp add: bucket_sum_append)

lemma count_all_eq:
  "count_all llm =
     \<lparr>totalQueriesWithBrand = bucket_sum (\<lambda>r. True) llm,
      topPositionCount = bucket_sum (\<lambda>r. 0 < r \<and> r \<le> 1) llm,
      midPositionCount = bucket_sum (\<lambda>r. 1 < r \<and> r \<le> 4) llm,
      lowPositionCount = bucket_sum (\<lambda>r. 4 < r) llm\<rparr>"
  by (simp add: count_all_def fold_count_llm)

lemma positionBreakdown_v2_eq:
  "positionBreakdown_v2 llm =
     \<lparr>topPosition = percent_of (bucket_sum (\<lambda>r. 0 < r \<and> r \<le> 1) llm)
        (if bucket_sum (\<lambda>r. True) llm = 0 then 1 else bucket_sum (\<lambda>r. True) llm),
      midPosition = percent_of (bucket_sum (\<lambda>r. 1 < r \<and> r \<le> 4) llm)
        (if bucket_sum (\<lambda>r. True) llm = 0 then 1 else bucket_sum (\<lambda>r. True) llm),
      lowPosition = percent_of (bucket_sum (\<lambda>r. 4 < r) llm)
        (if bucket_sum (\<lambda>r. True) llm = 0 then 1 else bucket_sum (\<lambda>r. True) llm)\<rparr>"
  by (simp add: positionBreakdown_v2_def Let_def count_all_buckets)

text \<open>
  C10. In the second declaration of \<open>getAIVisibilityMetrics\<close>, an entry whose
  queries-with-brand are not 0 and whose average brand rank and average rank both
  resolve to 0 adds its queries to the total and to no bucket: with the entry in the
  list, each percentage is the bucket of the other entries over the total of the other
  entries plus the queries of the entry. 5 queries at rank 1 alone give 100, 0 and 0;
  with 5 unranked queries more the total is 10 and the percentages are 50, 0 and 0,
  which add up to less than 100. For counts that are not negative, each of the three
  percentages is a number from 0 to 100.
\<close>

theorem unranked_model_lowers_sum:
  "(or0 (queries_with_brand d) \<noteq> 0 \<and> or0 (average_brand_rank d) = 0 \<and> or0 (average_rank d) = 0 \<longrightarrow>
      count_llm (Some d) c = c\<lparr>totalQueriesWithBrand := totalQueriesWithBrand c + or0 (queries_with_brand d)\<rparr> \<and>
      count_all (xs @ Some d # ys) =
        (count_all (xs @ ys))\<lparr>totalQueriesWithBrand :=
           totalQueriesWithBrand (count_all (xs @ ys)) + or0 (queries_with_brand d)\<rparr> \<and>
      positionBreakdown_v2 (xs @ Some d # ys) =
        (let n = bucket_sum (\<lambda>r. True) (xs @ ys) + or0 (queries_with_brand d);
             queriesWithMentions = (if n = 0 then 1 else n)
         in \<lparr>topPosition = percent_of (bucket_sum (\<lambda>r. 0 < r \<and> r \<le> 1) (xs @ ys)) queriesWithMentions,
             midPosition = percent_of (bucket_sum (\<lambda>r. 1 < r \<and> r \<le> 4) (xs @ ys)) queriesWithMentions,
             lowPosition = percent_of (bucket_sum (\<lambda>r. 4 < r) (xs @ ys)) queriesWithMentions\<rparr>)) \<and>
   positionBreakdown_v2 [example_llm 5 1] =
     \<lparr>topPosition = Fin 100, midPosition = Fin 0, lowPosition = Fin 0\<rparr> \<and>
   positionBreakdown_v2 [example_llm 5 1, example_llm 5 0] =
     \<lparr>topPosition = Fin 50, midPosition = Fin 0, lowPosition = Fin 0\<rparr> \<and>
   totalQueriesWithBrand (count_all [example_llm 5 1, example_llm 5 0]) = 10 \<and>
   (nonneg_queries llm \<longrightarrow>
      in_percent_range (topPosition (positionBreakdown_v2 llm)) \<and>
      in_percent_range (midPosition (positionBreakdown_v2 llm)) \<and>
      in_percent_range (lowPosition (positionBreakdown_v2 llm)))"
proof -
  have 1: "count_llm (Some d) c = c\<lparr>totalQueriesWithBrand := totalQueriesWithBrand c + or0 (queries_with_brand d)\<rparr> \<and>
      count_all (xs @ Some d # ys) =
        (count_all (xs @ ys))\<lparr>totalQueriesWithBrand :=
           totalQueriesWithBrand (count_all (xs @ ys)) + or0 (queries_with_brand d)\<rparr> \<and>
      positionBreakdown_v2 (xs @ Some d # ys) =
        (let n = bucket_sum (\<lambda>r. True) (xs @ ys) + or0 (queries_with_brand d);
             queriesWithMentions = (if n = 0 then 1 else n)
         in \<lparr>topPosition = percent_of (bucket_sum (\<lambda>r. 0 < r \<and> r \<le> 1) (xs @ ys)) queriesWithMentions,
             midPosition = percent_of (bucket_sum (\<lambda>r. 1 < r \<and> r \<le> 4) (xs @ ys)) queriesWithMentions,
             lowPosition = percent_of (bucket_sum (\<lambda>r. 4 < r) (xs @ ys)) queriesWithMentions\<rparr>)"
    if u: "or0 (queries_with_brand d) \<noteq> 0 \<and> or0 (average_brand_rank d) = 0 \<and> or0 (average_rank d) = 0"
  proof -
    have r: "avg_rank_of d = 0" using u by (simp add: avg_rank_of_def)
    have a: "count_llm (Some d) c = c\<lparr>totalQueriesWithBrand := totalQueriesWithBrand c + or0 (queries_with_brand d)\<rparr>"
      using u by (simp add: count_llm_def avg_rank_of_def Let_def)
    have b: "count_all (xs @ Some d # ys) =
        (count_all (xs @ ys))\<lparr>totalQueriesWithBrand :=
           totalQueriesWithBrand (count_all (xs @ ys)) + or0 (queries_with_brand d)\<rparr>"
      by (simp add: count_all_eq bucket_sum_insert r)
    have c: "positionBreakdown_v2 (xs @ Some d # ys) =
        (let n = bucket_sum (\<lambda>r. True) (xs @ ys) + or0 (queries_with_brand d);
             queriesWithMentions = (if n = 0 then 1 else n)
         in \<lparr>topPosition = percent_of (bucket_sum (\<lambda>r. 0 < r \<and> r \<le> 1) (xs @ ys)) queriesWithMentions,
             midPosition = percent_of (bucket_sum (\<lambda>r. 1 < r \<and> r \<le> 4) (xs @ ys)) queriesWithMentions,
             lowPosition = percent_of (bucket_sum (\<lambda>r. 4 < r) (xs @ ys)) queriesWithMentions\<rparr>)"
      by (simp add: positionBreakdown_v2_eq bucket_sum_insert r Let_def)
    show ?thesis using a b c by blast
  qed
  have t: "totalQueriesWithBrand (count_all [example_llm 5 1, example_llm 5 0]) = 10"
    by (simp add: count_all_buckets example_llm_def or0_def)
  have "js_percent 5 10 = Fin 50" by (rule js_percent_5_10)
  then have p: "positionBreakdown_v2 [example_llm 5 1, example_llm 5 0] =
      \<lparr>topPosition = Fin 50, midPosition = Fin 0, lowPosition = Fin 0\<rparr>"
    by (simp add: positionBreakdown_v2_eq example_llm_def avg_rank_of_def or0_def
        percent_of_js_percent js_percent_none)
  have "js_percent 5 5 = Fin 100" by (rule js_percent_all) simp
  then have q: "positionBreakdown_v2 [example_llm 5 1] =
      \<lparr>topPosition = Fin 100, midPosition = Fin 0, lowPosition = Fin 0\<rparr>"
    by (simp add: positionBreakdown_v2_eq example_llm_def avg_rank_of_def or0_def
        percent_of_js_percent js_percent_none)
  have 3: "in_percent_range (topPosition (positionBreakdown_v2 llm)) \<and>
      in_percent_range (midPosition (positionBreakdown_v2 llm)) \<and>
      in_percent_range (lowPosition (positionBreakdown_v2 llm))" if "nonneg_queries llm"
    unfolding positionBreakdown_v2_fields using bucket_percent(1) [OF that] by blast
  show ?thesis using 1 t p q 3 by blast
qed

theorem unranked_model_lowers_sum_witness:
  "or0 (queries_with_brand (the (example_llm 5 0))) \<noteq> 0 \<and>
   or0 (average_brand_rank (the (example_llm 5 0))) = 0 \<and>
   or0 (average_rank (the (example_llm 5 0))) = 0 \<and>
   nonneg_queries [example_llm 5 1, example_llm 5 0] \<and>
   count_llm (example_llm 5 0)
     \<lparr>totalQueriesWithBrand = 5, topPositionCount = 5, midPositionCount = 0, lowPositionCount = 0\<rparr> =
     \<lparr>totalQueriesWithBrand = 10, topPositionCount = 5, midPositionCount = 0, lowPositionCount = 0\<rparr> \<and>
   positionBreakdown_v2 [example_llm 5 1, example_llm 5 0] =
     \<lparr>topPosition = Fin 50, midPosition = Fin 0, lowPosition = Fin 0\<rparr> \<and>
   in_percent_range (topPosition (positionBreakdown_v2 [example_llm 5 1, example_llm 5 0])) \<and>
   in_percent_range (midPosition (positionBreakdown_v2 [example_llm 5 1, example_llm 5 0])) \<and>
   in_percent_range (lowPosition (positionBreakdown_v2 [example_llm 5 1, example_llm 5 0]))"
proof -
  let ?d = "the (example_llm 5 0)"
  let ?c = "\<lparr>totalQueriesWithBrand = 5, topPositionCount = 5, midPositionCount = 0, lowPositionCount = (0::int)\<rparr>"
  let ?llm = "[example_llm 5 1, example_llm 5 0]"
  have h: "or0 (queries_with_brand ?d) \<noteq> 0 \<and> or0 (average_brand_rank ?d) = 0 \<and>
      or0 (average_rank ?d) = 0"
    by (simp add: example_llm_def or0_def)
  have n: "nonneg_queries ?llm"
    by (simp add: example_llm_def nonneg_queries_def or0_def)
  note th = unranked_model_lowers_sum [of ?d ?c "[example_llm 5 1]" "[]" ?llm]
  from th h have c: "count_llm (Some ?d) ?c =
      ?c\<lparr>totalQueriesWithBrand := totalQueriesWithBrand ?c + or0 (queries_with_brand ?d)\<rparr>"
    by blast
  from th have p: "positionBreakdown_v2 ?llm =
      \<lparr>topPosition = Fin 50, midPosition = Fin 0, lowPosition = Fin 0\<rparr>"
    by blast
  from th n have r: "in_percent_range (topPosition (positionBreakdown_v2 ?llm)) \<and>
      in_percent_range (midPosition (positionBreakdown_v2 ?llm)) \<and>
      in_percent_range (lowPosition (positionBreakdown_v2 ?llm))"
    by blast
  have c': "count_llm (example_llm 5 0) ?c =
     \<lparr>totalQueriesWithBrand = 10, topPositionCount = 5, midPositionCount = 0, lowPositionCount = 0\<rparr>"
    using c by (simp add: example_llm_def or0_def)
  show ?thesis using h n c' p r by blast
qed

end
